theory Spec2Isabelle
  imports Main "HOL-Library.Monad_Syntax" "HOL-Library.Word"
begin

section \<open>Thingies and widgets (Src/Zle/zle\_thingy.c)\<close>

text \<open>
  A thingy is a \<^verbatim>\<open>struct thingy\<close> kept in the hash table \<^verbatim>\<open>thingytab\<close> under its name.
  A record stays in the table from its creation in \<^verbatim>\<open>rthingy\<close> until \<^verbatim>\<open>unrefthingy\<close>
  removes and frees it, so a \<^verbatim>\<open>Thingy\<close> pointer is modelled by the name under which the
  record sits in the table; dereferencing a pointer whose record is gone is a fault
  (the result \<open>None\<close>). A \<^verbatim>\<open>Widget\<close> pointer is an address in the store \<open>widgets\<close>, and the
  strings a widget owns (\<^verbatim>\<open>ztrdup\<close>) live in the store \<open>strings\<close>. The null pointer is
  \<open>None\<close>.

  The flag words are modelled as sets of flag names: \<^verbatim>\<open>f & X\<close> is \<open>X \<in> f\<close>,
  \<^verbatim>\<open>f |= X\<close> is \<open>insert X f\<close> and \<^verbatim>\<open>f &= ~X\<close> is \<open>f - {X}\<close>. The reference count is a C
  \<^verbatim>\<open>int\<close>; it is modelled as an unbounded integer (signed overflow has no defined
  behaviour in C and no claim depends on it).
\<close>

datatype thflag = DISABLED | TH_IMMORTAL

datatype wflag = WIDGET_INT | WIDGET_NCOMP | ZLE_MENUCMP | ZLE_KEEPSUFFIX | ZLE_ISCOMP
  | ZLE_FLAG nat

type_synonym Thingy = string
type_synonym Widget = nat

record thingy =
  flags :: "thflag set"
  rc :: int
  widget :: "Widget option"
  samew :: "Thingy option"

text \<open>The union \<^verbatim>\<open>u\<close> of a widget: a native function (an identifier for the function
  pointer), the name of a shell function, or the parts of a completion widget. The
  strings are addresses in the string store.\<close>

datatype wunion = U_fn nat | U_fnnam nat | U_comp nat nat nat

record widget_s =
  wflags :: "wflag set"
  first :: "Thingy option"
  u :: wunion

record registry =
  thingytab :: "string \<rightharpoonup> thingy"
  widgets :: "Widget \<rightharpoonup> widget_s"
  strings :: "nat \<rightharpoonup> string"

subsection \<open>Hash table primitives\<close>

text \<open>
  The hash table functions installed by \<^verbatim>\<open>createthingytab\<close> (\<^verbatim>\<open>gethashnode\<close>,
  \<^verbatim>\<open>gethashnode2\<close>, \<^verbatim>\<open>addhashnode\<close>, \<^verbatim>\<open>removehashnode\<close>) are defined in the shell's
  hashtable.c, outside this file. They are modelled as the operations of a finite map:
  \<open>getnode2\<close> finds the node stored under a name, \<open>getnode\<close> finds it only when it is
  enabled (the table's convention: ``Enabled nodes are those that refer to widgets''),
  \<open>addnode\<close> stores a node under a name and \<open>removenode\<close> takes it out.
\<close>

definition getnode2 :: "registry \<Rightarrow> string \<Rightarrow> thingy option" where
  "getnode2 r nam = thingytab r nam"

definition getnode :: "registry \<Rightarrow> string \<Rightarrow> thingy option" where
  "getnode r nam =
     (case thingytab r nam of
        None \<Rightarrow> None
      | Some th \<Rightarrow> if DISABLED \<in> flags th then None else Some th)"

definition addnode :: "string \<Rightarrow> thingy \<Rightarrow> registry \<Rightarrow> registry" where
  "addnode nam th r = r\<lparr>thingytab := (thingytab r)(nam \<mapsto> th)\<rparr>"

definition removenode :: "string \<Rightarrow> registry \<Rightarrow> registry" where
  "removenode nam r = r\<lparr>thingytab := (thingytab r)(nam := None)\<rparr>"

text \<open>\<^verbatim>\<open>makethingynode\<close>: a zeroed record with the \<^verbatim>\<open>DISABLED\<close> flag.\<close>

definition makethingynode :: thingy where
  "makethingynode = \<lparr>flags = {DISABLED}, rc = 0, widget = None, samew = None\<rparr>"

text \<open>Field assignment through a pointer; a dangling pointer is a fault.\<close>

definition upd_thingy :: "Thingy \<Rightarrow> (thingy \<Rightarrow> thingy) \<Rightarrow> registry \<Rightarrow> registry option" where
  "upd_thingy t f r =
     (case thingytab r t of
        None \<Rightarrow> None
      | Some th \<Rightarrow> Some (r\<lparr>thingytab := (thingytab r)(t \<mapsto> f th)\<rparr>))"

definition upd_widget :: "Widget \<Rightarrow> (widget_s \<Rightarrow> widget_s) \<Rightarrow> registry \<Rightarrow> registry option" where
  "upd_widget w f r =
     (case widgets r w of
        None \<Rightarrow> None
      | Some wd \<Rightarrow> Some (r\<lparr>widgets := (widgets r)(w \<mapsto> f wd)\<rparr>))"

definition zsfree :: "nat \<Rightarrow> registry \<Rightarrow> registry" where
  "zsfree a r = r\<lparr>strings := (strings r)(a := None)\<rparr>"

definition zfree_widget :: "Widget \<Rightarrow> registry \<Rightarrow> registry" where
  "zfree_widget w r = r\<lparr>widgets := (widgets r)(w := None)\<rparr>"

subsection \<open>Referencing thingies\<close>

definition refthingy :: "Thingy option \<Rightarrow> registry \<Rightarrow> (Thingy option \<times> registry) option" where
  "refthingy th r =
     (case th of
        None \<Rightarrow> Some (None, r)
      | Some t \<Rightarrow> do {
          r' \<leftarrow> upd_thingy t (\<lambda>x. x\<lparr>rc := rc x + 1\<rparr>) r;
          Some (Some t, r')
        })"

definition unrefthingy :: "Thingy option \<Rightarrow> registry \<Rightarrow> registry option" where
  "unrefthingy th r =
     (case th of
        None \<Rightarrow> Some r
      | Some t \<Rightarrow> do {
          r' \<leftarrow> upd_thingy t (\<lambda>x. x\<lparr>rc := rc x - 1\<rparr>) r;
          x \<leftarrow> thingytab r' t;
          if rc x = 0 then Some (removenode t r') else Some r'
        })"

definition rthingy :: "string \<Rightarrow> registry \<Rightarrow> (Thingy \<times> registry) option" where
  "rthingy nam r = do {
     let r1 = (case getnode2 r nam of
                 None \<Rightarrow> addnode nam makethingynode r
               | Some _ \<Rightarrow> r);
     (_, r2) \<leftarrow> refthingy (Some nam) r1;
     Some (nam, r2)
   }"

definition rthingy_nocreate :: "string \<Rightarrow> registry \<Rightarrow> (Thingy option \<times> registry) option" where
  "rthingy_nocreate nam r =
     (case getnode2 r nam of
        None \<Rightarrow> Some (None, r)
      | Some _ \<Rightarrow> refthingy (Some nam) r)"

subsection \<open>Widgets\<close>

definition freewidget :: "Widget \<Rightarrow> registry \<Rightarrow> registry option" where
  "freewidget w r = do {
     wd \<leftarrow> widgets r w;
     r1 \<leftarrow> (if WIDGET_NCOMP \<in> wflags wd then
              (case u wd of
                 U_comp fn wid func \<Rightarrow> Some (zsfree func (zsfree wid r))
               | _ \<Rightarrow> None)
            else if WIDGET_INT \<notin> wflags wd then
              (case u wd of
                 U_fnnam fnnam \<Rightarrow> Some (zsfree fnnam r)
               | _ \<Rightarrow> None)
            else Some r);
     Some (zfree_widget w r1)
   }"

text \<open>The loop of \<^verbatim>\<open>unbindwidget\<close> that walks the circular list from \<^verbatim>\<open>w->first\<close> to
  the thingy whose \<^verbatim>\<open>samew\<close> is \<open>t\<close>. It need not terminate on a malformed list.\<close>

partial_function (option) findprev :: "registry \<Rightarrow> Thingy \<Rightarrow> Thingy \<Rightarrow> Thingy option" where
  "findprev r t p =
     (case thingytab r p of
        None \<Rightarrow> None
      | Some pth \<Rightarrow>
          (case samew pth of
             None \<Rightarrow> None
           | Some q \<Rightarrow> if q \<noteq> t then findprev r t q else Some p))"

definition unbindwidget :: "Thingy \<Rightarrow> int \<Rightarrow> registry \<Rightarrow> (int \<times> registry) option" where
  "unbindwidget t override r = do {
     th \<leftarrow> thingytab r t;
     if DISABLED \<in> flags th then Some (0, r)
     else if override = 0 \<and> TH_IMMORTAL \<in> flags th then Some (-1, r)
     else do {
       w \<leftarrow> widget th;
       r1 \<leftarrow> (if samew th = Some t then freewidget w r
              else do {
                wd \<leftarrow> widgets r w;
                f \<leftarrow> first wd;
                p \<leftarrow> findprev r t f;
                ra \<leftarrow> upd_widget w (\<lambda>x. x\<lparr>first := Some p\<rparr>) r;
                tth \<leftarrow> thingytab ra t;
                upd_thingy p (\<lambda>x. x\<lparr>samew := samew tth\<rparr>) ra
              });
       r2 \<leftarrow> upd_thingy t (\<lambda>x. x\<lparr>flags := flags x - {TH_IMMORTAL}\<rparr>) r1;
       r3 \<leftarrow> upd_thingy t (\<lambda>x. x\<lparr>flags := insert DISABLED (flags x)\<rparr>) r2;
       r4 \<leftarrow> unrefthingy (Some t) r3;
       Some (0, r4)
     }
   }"

text \<open>Lines 210--219 of \<^verbatim>\<open>bindwidget\<close>: splice \<open>t\<close> into the circular list of \<open>w\<close>.\<close>

definition bindwidget_splice :: "Widget option \<Rightarrow> Thingy \<Rightarrow> registry \<Rightarrow> registry option" where
  "bindwidget_splice w t r = do {
     wa \<leftarrow> w;
     wd \<leftarrow> widgets r wa;
     r1 \<leftarrow> (case first wd of
              Some f \<Rightarrow> do {
                fth \<leftarrow> thingytab r f;
                ra \<leftarrow> upd_thingy t (\<lambda>x. x\<lparr>samew := samew fth\<rparr>) r;
                upd_thingy f (\<lambda>x. x\<lparr>samew := Some t\<rparr>) ra
              }
            | None \<Rightarrow> do {
                ra \<leftarrow> upd_widget wa (\<lambda>x. x\<lparr>first := Some t\<rparr>) r;
                upd_thingy t (\<lambda>x. x\<lparr>samew := Some t\<rparr>) ra
              });
     r2 \<leftarrow> upd_thingy t (\<lambda>x. x\<lparr>widget := w\<rparr>) r1;
     upd_thingy t (\<lambda>x. x\<lparr>flags := flags x - {DISABLED}\<rparr>) r2
   }"

definition bindwidget :: "Widget option \<Rightarrow> Thingy \<Rightarrow> registry \<Rightarrow> (int \<times> registry) option" where
  "bindwidget w t r = do {
     th \<leftarrow> thingytab r t;
     if TH_IMMORTAL \<in> flags th then do {
       r' \<leftarrow> unrefthingy (Some t) r;
       Some (-1, r')
     }
     else if DISABLED \<notin> flags th \<and> widget th = w then Some (0, r)
     else do {
       r1 \<leftarrow> (if DISABLED \<notin> flags th then map_option snd (unbindwidget t 1 r) else Some r);
       r2 \<leftarrow> bindwidget_splice w t r1;
       Some (0, r2)
     }
   }"

text \<open>Memory allocation. \<^verbatim>\<open>zalloc\<close> and \<^verbatim>\<open>ztrdup\<close> return a block that is not in use; the
  address they return is an argument of the model, so that nothing depends on the
  allocator's policy.\<close>

definition zalloc_widget :: "Widget \<Rightarrow> widget_s \<Rightarrow> registry \<Rightarrow> registry" where
  "zalloc_widget wa wd r = r\<lparr>widgets := (widgets r)(wa \<mapsto> wd)\<rparr>"

definition ztrdup :: "nat \<Rightarrow> string \<Rightarrow> registry \<Rightarrow> registry" where
  "ztrdup sa str r = r\<lparr>strings := (strings r)(sa \<mapsto> str)\<rparr>"


text \<open>\<^verbatim>\<open>name[0] == '.'\<close>\<close>

definition dotted :: "string \<Rightarrow> bool" where
  "dotted name = (case name of [] \<Rightarrow> False | c # _ \<Rightarrow> c = CHR ''.'')"

text \<open>\<^verbatim>\<open>addzlefunction\<close>; \<open>wa\<close> is the block \<^verbatim>\<open>zalloc\<close> returns. The result is the widget, or
  the null pointer.\<close>

definition addzlefunction ::
  "Widget \<Rightarrow> string \<Rightarrow> nat \<Rightarrow> wflag set \<Rightarrow> registry \<Rightarrow> (Widget option \<times> registry) option" where
  "addzlefunction wa name ifunc fl r =
     (if dotted name then Some (None, r)
      else
        let dotn = CHR ''.'' # name in
        if (case getnode r dotn of None \<Rightarrow> False | Some th \<Rightarrow> TH_IMMORTAL \<in> flags th)
        then Some (None, r)
        else do {
          let r1 = zalloc_widget wa
                     \<lparr>wflags = insert WIDGET_INT fl, first = None, u = U_fn ifunc\<rparr> r;
          (t, r2) \<leftarrow> rthingy dotn r1;
          (_, r3) \<leftarrow> bindwidget (Some wa) t r2;
          r4 \<leftarrow> upd_thingy t (\<lambda>x. x\<lparr>flags := insert TH_IMMORTAL (flags x)\<rparr>) r3;
          (t2, r5) \<leftarrow> rthingy name r4;
          (_, r6) \<leftarrow> bindwidget (Some wa) t2 r5;
          Some (Some wa, r6)
        })"

text \<open>\<^verbatim>\<open>deletezlefunction\<close>: the loop from \<open>p = w->first\<close>.\<close>

partial_function (option) deletezle_loop :: "Thingy \<Rightarrow> registry \<Rightarrow> registry option" where
  "deletezle_loop p r =
     (case thingytab r p of
        None \<Rightarrow> None
      | Some pth \<Rightarrow>
          (case samew pth of
             None \<Rightarrow> None
           | Some n \<Rightarrow>
               if n = p then map_option snd (unbindwidget p 1 r)
               else (case unbindwidget p 1 r of
                       None \<Rightarrow> None
                     | Some (_, r') \<Rightarrow> deletezle_loop n r')))"

definition deletezlefunction :: "Widget \<Rightarrow> registry \<Rightarrow> registry option" where
  "deletezlefunction w r = do {
     wd \<leftarrow> widgets r w;
     p \<leftarrow> first wd;
     deletezle_loop p r
   }"

text \<open>\<^verbatim>\<open>init_thingies\<close>: an empty table, then one node for each entry of the fixed table
  \<^verbatim>\<open>thingies\<close>. The fixed table and the static widgets its entries point to are defined
  outside this file and are parameters here.\<close>

definition init_thingies :: "(string \<times> thingy) list \<Rightarrow> (Widget \<rightharpoonup> widget_s) \<Rightarrow> registry" where
  "init_thingies thingies fixedwidgets =
     fold (\<lambda>(nam, t). addnode nam t) thingies
       \<lparr>thingytab = Map.empty, widgets = fixedwidgets, strings = Map.empty\<rparr>"

section \<open>The state of the editor\<close>

datatype modflag = MOD_MULT | MOD_FLAG nat

text \<open>\<^verbatim>\<open>struct modifier\<close>: the fields this file assigns, and the rest of the structure.\<close>

record modifier =
  mflags :: "modflag set"
  mult :: int
  mrest :: "int list"

text \<open>The global variables the builtin reads and writes. A call of \<^verbatim>\<open>zwarnnam\<close> is recorded
  with its arguments in \<open>warnings\<close>, a line printed by \<^verbatim>\<open>bin_zle_fd\<close> in \<open>printed\<close>.
  \<open>keymapnamtab\<close> holds the names of the existing keymaps.\<close>

record zle =
  reg :: registry
  zleactive :: int
  incompctlfunc :: int
  incompfunc :: int
  zmod :: modifier
  curkeymapname :: string
  keymapnamtab :: "string set"
  nwatch :: nat
  watch_fds :: "int list"
  watch_funcs :: "string option list"
  warnings :: "(string \<times> string \<times> string option \<times> int) list"
  printed :: "(string \<times> int \<times> string option) list"

type_synonym Options = "char \<Rightarrow> bool"

type_synonym handler = "string \<Rightarrow> string list \<Rightarrow> Options \<Rightarrow> char \<Rightarrow> zle \<Rightarrow> (int \<times> zle) option"

datatype opfunc = Bin_zle_list | Bin_zle_del | Bin_zle_link | Bin_zle_new | Bin_zle_complete
  | Bin_zle_refresh | Bin_zle_mesg | Bin_zle_unget | Bin_zle_keymap | Bin_zle_invalidate
  | Bin_zle_fd | Bin_zle_call

text \<open>The collaborators of this file: the dispatcher \<^verbatim>\<open>execzlefunc\<close>, the C library's
  \<^verbatim>\<open>atoi\<close>, the shell's \<^verbatim>\<open>zstrtol\<close> (value and unparsed rest), the allocator's choice of
  a free block, the contents of memory that was allocated and not yet written, and the
  operation functions that this development does not look into.\<close>

record ext =
  execzlefunc :: "Thingy \<Rightarrow> string list \<Rightarrow> zle \<Rightarrow> int \<times> zle"
  atoi :: "string \<Rightarrow> int"
  zstrtol :: "string \<Rightarrow> int \<times> string"
  zalloc_addr :: "zle \<Rightarrow> Widget"
  ztrdup_addr :: "zle \<Rightarrow> nat"
  junk_int :: int
  junk_str :: "string option"
  other_func :: "opfunc \<Rightarrow> handler"

definition zwarnnam :: "string \<Rightarrow> string \<Rightarrow> string option \<Rightarrow> int \<Rightarrow> zle \<Rightarrow> zle" where
  "zwarnnam cmd fmt str num s = s\<lparr>warnings := warnings s @ [(cmd, fmt, str, num)]\<rparr>"

text \<open>The format strings with a quote character in them.\<close>

definition fmt_no_such_widget :: string where
  "fmt_no_such_widget = ''no such widget `%s'' @ [CHR 0x27]"

definition fmt_protected :: string where
  "fmt_protected = ''widget name `%s'' @ [CHR 0x27] @ '' is protected''"

text \<open>Modelled from the spec: \<^verbatim>\<open>selectkeymap\<close> is defined in zle\_keymap.c, outside this
  file; the spec has it as ``select keymap by name'' lookup returning success/failure.
  A known name becomes the current keymap and the result is 0; an unknown name leaves the
  state as it is and the result is 1.\<close>

definition selectkeymap :: "string \<Rightarrow> int \<Rightarrow> zle \<Rightarrow> int \<times> zle" where
  "selectkeymap name fb s =
     (if name \<in> keymapnamtab s then (0, s\<lparr>curkeymapname := name\<rparr>) else (1, s))"

section \<open>The operations of the builtin\<close>

text \<open>\<^verbatim>\<open>bin_zle_del\<close>: the body of the do-while loop runs for the first argument before the
  test, so an empty argument vector is a null dereference.\<close>

fun bin_zle_del_loop :: "string \<Rightarrow> string list \<Rightarrow> int \<Rightarrow> zle \<Rightarrow> (int \<times> zle) option" where
  "bin_zle_del_loop name [] ret s = None"
| "bin_zle_del_loop name (a # args) ret s =
     (case (case getnode (reg s) a of
              None \<Rightarrow> Some (1, zwarnnam name fmt_no_such_widget (Some a) 0 s)
            | Some _ \<Rightarrow>
                (case unbindwidget a 0 (reg s) of
                   None \<Rightarrow> None
                 | Some (rv, r') \<Rightarrow>
                     if rv \<noteq> 0
                     then Some (1, zwarnnam name fmt_protected (Some a) 0 (s\<lparr>reg := r'\<rparr>))
                     else Some (ret, s\<lparr>reg := r'\<rparr>))) of
        None \<Rightarrow> None
      | Some (ret', s') \<Rightarrow>
          if args = [] then Some (ret', s') else bin_zle_del_loop name args ret' s')"

definition bin_zle_del :: handler where
  "bin_zle_del name args ops func s = bin_zle_del_loop name args 0 s"

definition bin_zle_link :: handler where
  "bin_zle_link name args ops func s =
     (case args of
        a0 # a1 # _ \<Rightarrow>
          (case getnode (reg s) a0 of
             None \<Rightarrow> Some (1, zwarnnam name fmt_no_such_widget (Some a0) 0 s)
           | Some th \<Rightarrow> do {
               (t, r1) \<leftarrow> rthingy a1 (reg s);
               (rv, r2) \<leftarrow> bindwidget (widget th) t r1;
               if rv \<noteq> 0
               then Some (1, zwarnnam name fmt_protected (Some a1) 0 (s\<lparr>reg := r2\<rparr>))
               else Some (0, s\<lparr>reg := r2\<rparr>)
             })
      | _ \<Rightarrow> None)"

text \<open>\<^verbatim>\<open>bin_zle_new\<close>; \<open>wa\<close> and \<open>sa\<close> are the blocks that \<^verbatim>\<open>zalloc\<close> and \<^verbatim>\<open>ztrdup\<close> return.\<close>

definition bin_zle_new :: "Widget \<Rightarrow> nat \<Rightarrow> handler" where
  "bin_zle_new wa sa name args ops func s =
     (case args of
        [] \<Rightarrow> None
      | a0 # rest \<Rightarrow> do {
          let r0 = zalloc_widget wa \<lparr>wflags = {}, first = None, u = U_fnnam sa\<rparr> (reg s);
          let r1 = ztrdup sa (case rest of [] \<Rightarrow> a0 | a1 # _ \<Rightarrow> a1) r0;
          (t, r2) \<leftarrow> rthingy a0 r1;
          (rv, r3) \<leftarrow> bindwidget (Some wa) t r2;
          if rv = 0 then Some (0, s\<lparr>reg := r3\<rparr>)
          else do {
            r4 \<leftarrow> freewidget wa r3;
            Some (1, zwarnnam name fmt_protected (Some a0) 0 (s\<lparr>reg := r4\<rparr>))
          }
        })"

definition zle_usable :: "zle \<Rightarrow> int" where
  "zle_usable s = (if zleactive s \<noteq> 0 \<and> incompctlfunc s = 0 \<and> incompfunc s = 0 then 1 else 0)"

text \<open>
  The option loop of \<^verbatim>\<open>bin_zle_call\<close>. \<open>zle_call_opts e name cur args saveflag kr s\<close> is
  the state of the two nested loops: \<open>cur = None\<close> at the head of the outer loop with
  \<open>args\<close> the remaining vector; \<open>cur = Some cs\<close> at the test of the inner loop
  \<^verbatim>\<open>while (*++(*args))\<close>, with \<open>cs\<close> the current argument from the incremented pointer on
  and \<open>args\<close> the vector after the current argument. The result is \<open>Inl\<close> for a
  \<^verbatim>\<open>return\<close> inside the loop, and \<open>Inr\<close> with the remaining arguments, \<^verbatim>\<open>saveflag\<close>,
  \<^verbatim>\<open>keymap_restore\<close> and the state when the loop is left.
\<close>

function zle_call_opts ::
  "ext \<Rightarrow> string \<Rightarrow> string option \<Rightarrow> string list \<Rightarrow> bool \<Rightarrow> string option \<Rightarrow> zle
     \<Rightarrow> (int \<times> zle) + (string list \<times> bool \<times> string option \<times> zle)" where
  "zle_call_opts e name None [] saveflag kr s = Inr ([], saveflag, kr, s)"
| "zle_call_opts e name None (a # args) saveflag kr s =
     (if take 1 a = ''-'' then
        (if tl a = [] \<or> take 1 (tl a) = ''-'' then Inr (args, saveflag, kr, s)
         else zle_call_opts e name (Some (tl a)) args saveflag kr s)
      else Inr (a # args, saveflag, kr, s))"
| "zle_call_opts e name (Some []) args saveflag kr s =
     zle_call_opts e name None args saveflag kr s"
| "zle_call_opts e name (Some (c # cs)) args saveflag kr s =
     (if c = CHR ''n'' then
        (case (if cs \<noteq> [] then Some cs else (case args of [] \<Rightarrow> None | a # _ \<Rightarrow> Some a)) of
           None \<Rightarrow> Inl (1, zwarnnam name ''number expected after -%c'' None (of_char c) s)
         | Some num \<Rightarrow>
             let s' = s\<lparr>zmod := (zmod s)\<lparr>mult := atoi e num,
                                            mflags := insert MOD_MULT (mflags (zmod s))\<rparr>\<rparr>
             in if cs = [] then zle_call_opts e name (Some []) (tl args) True kr s'
                else zle_call_opts e name (Some cs) args True kr s')
      else if c = CHR ''N'' then
        zle_call_opts e name (Some cs) args True kr
          (s\<lparr>zmod := (zmod s)\<lparr>mult := 1, mflags := mflags (zmod s) - {MOD_MULT}\<rparr>\<rparr>)
      else if c = CHR ''K'' then
        (case (if cs \<noteq> [] then Some cs else (case args of [] \<Rightarrow> None | a # _ \<Rightarrow> Some a)) of
           None \<Rightarrow> Inl (1, zwarnnam name ''keymap expected after -%c'' None (of_char c) s)
         | Some keymap_tmp \<Rightarrow>
             (case selectkeymap keymap_tmp 0 s of
                (rv, s') \<Rightarrow>
                  if rv \<noteq> 0 then Inl (1, s')
                  else if cs = []
                    then zle_call_opts e name (Some []) (tl args) saveflag
                           (Some (curkeymapname s)) s'
                    else zle_call_opts e name (Some cs) args saveflag
                           (Some (curkeymapname s)) s'))
      else Inl (1, zwarnnam name ''unknown option: %s'' (Some (c # cs)) 0 s))"
  by pat_completeness auto
termination
  by (relation "measure (\<lambda>(e, name, cur, args, saveflag, kr, s).
        2 * (sum_list (map length args) + length args)
        + (case cur of None \<Rightarrow> 0 | Some cs \<Rightarrow> 2 * length cs + 1))")
     (auto split: list.splits)

definition bin_zle_call :: "ext \<Rightarrow> handler" where
  "bin_zle_call e name args0 ops func s =
     (let modsave = zmod s in
      case args0 of
        [] \<Rightarrow> Some (if zle_usable s \<noteq> 0 then 0 else 1, s)
      | wname # args1 \<Rightarrow>
          if zle_usable s = 0
          then Some (1, zwarnnam name ''widgets can only be called when ZLE is active'' None 0 s)
          else
            (case zle_call_opts e name None args1 False None s of
               Inl res \<Rightarrow> Some res
             | Inr (args, saveflag, keymap_restore, s1) \<Rightarrow> do {
                 (t, r2) \<leftarrow> rthingy wname (reg s1);
                 (ret, s3) \<leftarrow> Some (execzlefunc e t args (s1\<lparr>reg := r2\<rparr>));
                 r4 \<leftarrow> unrefthingy (Some t) (reg s3);
                 let s4 = s3\<lparr>reg := r4\<rparr>;
                 let s5 = (if saveflag then s4\<lparr>zmod := modsave\<rparr> else s4);
                 let s6 = (case keymap_restore of
                             None \<Rightarrow> s5
                           | Some km \<Rightarrow> snd (selectkeymap km 0 s5));
                 Some (ret, s6)
               }))"

section \<open>Well-formed registries\<close>

text \<open>The \<^verbatim>\<open>samew\<close> pointer of the thingy at \<open>t\<close>.\<close>

definition nxt :: "(string \<rightharpoonup> thingy) \<Rightarrow> Thingy \<Rightarrow> Thingy option" where
  "nxt tt t = (case tt t of None \<Rightarrow> None | Some th \<Rightarrow> samew th)"

text \<open>\<open>samew_cycle tt xs\<close>: following \<^verbatim>\<open>samew\<close> from the head of \<open>xs\<close> visits the members of
  \<open>xs\<close> in order, without a repetition, and leads from the last member back to the
  head.\<close>

definition samew_cycle :: "(string \<rightharpoonup> thingy) \<Rightarrow> Thingy list \<Rightarrow> bool" where
  "samew_cycle tt xs \<longleftrightarrow> xs \<noteq> [] \<and> distinct xs \<and> map (nxt tt) xs = map Some (rotate1 xs)"

text \<open>The names bound to the widget \<open>w\<close>: the enabled thingies whose \<^verbatim>\<open>widget\<close> is \<open>w\<close>.\<close>

definition bound_names :: "(string \<rightharpoonup> thingy) \<Rightarrow> Widget \<Rightarrow> Thingy set" where
  "bound_names tt w = {t. \<exists>th. tt t = Some th \<and> DISABLED \<notin> flags th \<and> widget th = Some w}"

text \<open>The list of a widget with \<^verbatim>\<open>first\<close> pointer \<open>fo\<close>: no name when the pointer is null,
  else a cycle from \<^verbatim>\<open>first\<close> through exactly the names bound to the widget.\<close>

definition ring :: "(string \<rightharpoonup> thingy) \<Rightarrow> Widget \<Rightarrow> Thingy option \<Rightarrow> bool" where
  "ring tt w fo =
     (case fo of
        None \<Rightarrow> bound_names tt w = {}
      | Some f \<Rightarrow> (\<exists>ys. samew_cycle tt (f # ys) \<and> set (f # ys) = bound_names tt w))"

text \<open>The member of the union that \<^verbatim>\<open>freewidget\<close> reads is the one the flags announce.\<close>

definition u_ok :: "widget_s \<Rightarrow> bool" where
  "u_ok wd =
     (if WIDGET_NCOMP \<in> wflags wd then (case u wd of U_comp _ _ _ \<Rightarrow> True | _ \<Rightarrow> False)
      else if WIDGET_INT \<notin> wflags wd then (case u wd of U_fnnam _ \<Rightarrow> True | _ \<Rightarrow> False)
      else True)"

text \<open>The strings \<^verbatim>\<open>freewidget\<close> frees.\<close>

definition owned_strings :: "widget_s \<Rightarrow> nat set" where
  "owned_strings wd =
     (if WIDGET_NCOMP \<in> wflags wd then (case u wd of U_comp _ wid func \<Rightarrow> {wid, func} | _ \<Rightarrow> {})
      else if WIDGET_INT \<notin> wflags wd then (case u wd of U_fnnam fnnam \<Rightarrow> {fnnam} | _ \<Rightarrow> {})
      else {})"

text \<open>A record in the table is referenced at least once; only an enabled thingy with a
  dotted name is immortal; an enabled thingy points to a live widget.\<close>

definition thingy_ok :: "registry \<Rightarrow> Thingy \<Rightarrow> thingy \<Rightarrow> bool" where
  "thingy_ok r t th \<longleftrightarrow>
     1 \<le> rc th \<and>
     (TH_IMMORTAL \<in> flags th \<longrightarrow> DISABLED \<notin> flags th \<and> dotted t) \<and>
     (DISABLED \<notin> flags th \<longrightarrow> (\<exists>w. widget th = Some w \<and> widgets r w \<noteq> None))"

definition wf_registry :: "registry \<Rightarrow> bool" where
  "wf_registry r \<longleftrightarrow>
     (\<forall>t th. thingytab r t = Some th \<longrightarrow> thingy_ok r t th) \<and>
     (\<forall>w wd. widgets r w = Some wd \<longrightarrow> ring (thingytab r) w (first wd) \<and> u_ok wd)"

text \<open>What \<^verbatim>\<open>unbindwidget\<close> leaves of the record it disables.\<close>

definition disabled_thingy :: "thingy \<Rightarrow> thingy" where
  "disabled_thingy th =
     th\<lparr>flags := insert DISABLED (flags th - {TH_IMMORTAL}), rc := rc th - 1\<rparr>"

section \<open>Sequences of binding operations\<close>

text \<open>
  The operations that bind and unbind: \<^verbatim>\<open>zle -N\<close>, \<^verbatim>\<open>zle -A\<close>, \<^verbatim>\<open>zle -D\<close>, the registration and
  removal of a native widget by a module, a reference taken with \<^verbatim>\<open>rthingy\<close>, and a
  bare \<^verbatim>\<open>unbindwidget\<close> on a thingy of the table. An operation that allocates carries the
  addresses the allocator returns.
\<close>

datatype regop =
    OpNew Widget nat string "string option"
  | OpLink string string
  | OpDel "string list"
  | OpAdd Widget string nat "wflag set"
  | OpDelete Widget
  | OpRef string
  | OpUnbind string int

text \<open>What the callers guarantee: the allocator returns blocks that are not in use, a
  module passes flags of its own (not \<^verbatim>\<open>WIDGET_NCOMP\<close>) and deletes a widget it has
  registered, \<^verbatim>\<open>bin_zle\<close> passes at least one name to \<^verbatim>\<open>bin_zle_del\<close>, and a pointer
  handed to \<^verbatim>\<open>unbindwidget\<close> points into the table.\<close>

fun op_ok :: "registry \<Rightarrow> regop \<Rightarrow> bool" where
  "op_ok r (OpNew wa sa nam fn) = (widgets r wa = None \<and> strings r sa = None)"
| "op_ok r (OpLink a b) = True"
| "op_ok r (OpDel args) = (args \<noteq> [])"
| "op_ok r (OpAdd wa nam ifunc fl) = (widgets r wa = None \<and> WIDGET_NCOMP \<notin> fl)"
| "op_ok r (OpDelete w) =
     (case widgets r w of None \<Rightarrow> False | Some wd \<Rightarrow> WIDGET_INT \<in> wflags wd \<and> first wd \<noteq> None)"
| "op_ok r (OpRef nam) = True"
| "op_ok r (OpUnbind nam ov) = (thingytab r nam \<noteq> None)"

definition no_ops :: Options where
  "no_ops c = False"

definition zle_cmd :: string where
  "zle_cmd = ''zle''"

fun exec_op :: "regop \<Rightarrow> zle \<Rightarrow> zle option" where
  "exec_op (OpNew wa sa nam fn) s =
     map_option snd
       (bin_zle_new wa sa zle_cmd (nam # (case fn of None \<Rightarrow> [] | Some f \<Rightarrow> [f])) no_ops
          (CHR ''N'') s)"
| "exec_op (OpLink a b) s = map_option snd (bin_zle_link zle_cmd [a, b] no_ops (CHR ''A'') s)"
| "exec_op (OpDel args) s = map_option snd (bin_zle_del zle_cmd args no_ops (CHR ''D'') s)"
| "exec_op (OpAdd wa nam ifunc fl) s =
     map_option (\<lambda>(w, r'). s\<lparr>reg := r'\<rparr>) (addzlefunction wa nam ifunc fl (reg s))"
| "exec_op (OpDelete w) s = map_option (\<lambda>r'. s\<lparr>reg := r'\<rparr>) (deletezlefunction w (reg s))"
| "exec_op (OpRef nam) s = map_option (\<lambda>(t, r'). s\<lparr>reg := r'\<rparr>) (rthingy nam (reg s))"
| "exec_op (OpUnbind nam ov) s =
     map_option (\<lambda>(rv, r'). s\<lparr>reg := r'\<rparr>) (unbindwidget nam ov (reg s))"



text \<open>The effect of \<^verbatim>\<open>unbindwidget\<close> on an enabled thingy \<open>t\<close> with record \<open>th\<close>, bound to the
  widget at \<open>w\<close> with record \<open>wd\<close>: the record of \<open>t\<close> is disabled and released; the other
  records keep their flags, reference count and widget; the other widgets are untouched;
  the widget of \<open>t\<close> is freed with its strings when \<open>t\<close> was its only name, and else only
  its \<^verbatim>\<open>first\<close> pointer is reassigned.\<close>

definition unbind_effect ::
  "registry \<Rightarrow> Thingy \<Rightarrow> thingy \<Rightarrow> Widget \<Rightarrow> widget_s \<Rightarrow> registry \<Rightarrow> bool" where
  "unbind_effect r t th w wd r' \<longleftrightarrow>
     thingytab r' t = (if rc th = 1 then None else Some (disabled_thingy th)) \<and>
     (\<forall>x. x \<noteq> t \<longrightarrow>
        rel_option (\<lambda>a b. flags a = flags b \<and> rc a = rc b \<and> widget a = widget b)
          (thingytab r x) (thingytab r' x)) \<and>
     (\<forall>w'. w' \<noteq> w \<longrightarrow> widgets r' w' = widgets r w') \<and>
     (if samew th = Some t
      then widgets r' w = None \<and> strings r' = strings r |` (- owned_strings wd)
      else (\<exists>p. widgets r' w = Some (wd\<lparr>first := Some p\<rparr>)) \<and> strings r' = strings r)"

text \<open>The effect of a successful \<^verbatim>\<open>bindwidget\<close> of the thingy \<open>t\<close> with record \<open>th\<close> to the
  widget at \<open>w\<close>: \<open>t\<close> is enabled and points to \<open>w\<close> (its reference count is one less
  when it was taken from another widget); the other records keep their flags, reference
  count and widget; \<open>w\<close> stays live; another widget keeps its flags and union, or is
  freed when \<open>t\<close> was its only name.\<close>

definition bind_effect :: "registry \<Rightarrow> Thingy \<Rightarrow> thingy \<Rightarrow> Widget \<Rightarrow> registry \<Rightarrow> bool" where
  "bind_effect r t th w r' \<longleftrightarrow>
     (\<exists>sw. thingytab r' t =
        Some (th\<lparr>samew := sw, widget := Some w, flags := flags th - {DISABLED},
                 rc := (if DISABLED \<in> flags th then rc th else rc th - 1)\<rparr>)) \<and>
     (\<forall>x. x \<noteq> t \<longrightarrow>
        rel_option (\<lambda>a b. flags a = flags b \<and> rc a = rc b \<and> widget a = widget b)
          (thingytab r x) (thingytab r' x)) \<and>
     (\<exists>wd f. widgets r w = Some wd \<and> widgets r' w = Some (wd\<lparr>first := Some f\<rparr>)) \<and>
     (\<forall>w'. w' \<noteq> w \<longrightarrow>
        rel_option (\<lambda>a b. wflags a = wflags b \<and> u a = u b) (widgets r w') (widgets r' w') \<or>
        (widgets r' w' = None \<and> bound_names (thingytab r) w' = {t}))"

section \<open>Example states\<close>

text \<open>A registry as \<^verbatim>\<open>addzlefunction\<close> leaves it for a native widget \<^verbatim>\<open>foo\<close> at address 0:
  the immortal \<^verbatim>\<open>.foo\<close> and the plain \<^verbatim>\<open>foo\<close> share the widget. In \<open>held_registry\<close> a
  caller has taken one more reference to \<^verbatim>\<open>.foo\<close>.\<close>

definition native_registry :: registry where
  "native_registry =
     \<lparr>thingytab =
        [''.foo'' \<mapsto> \<lparr>flags = {TH_IMMORTAL}, rc = 1, widget = Some 0, samew = Some ''foo''\<rparr>,
         ''foo'' \<mapsto> \<lparr>flags = {}, rc = 1, widget = Some 0, samew = Some ''.foo''\<rparr>],
      widgets = [0 \<mapsto> \<lparr>wflags = {WIDGET_INT}, first = Some ''.foo'', u = U_fn 0\<rparr>],
      strings = Map.empty\<rparr>"

definition held_registry :: registry where
  "held_registry =
     native_registry\<lparr>thingytab := (thingytab native_registry)
       (''.foo'' \<mapsto> \<lparr>flags = {TH_IMMORTAL}, rc = 2, widget = Some 0, samew = Some ''foo''\<rparr>)\<rparr>"

text \<open>The editor before any widget is defined, with an empty fixed table, inactive.\<close>

definition initial_zle :: zle where
  "initial_zle =
     \<lparr>reg = init_thingies [] Map.empty,
      zleactive = 0, incompctlfunc = 0, incompfunc = 0,
      zmod = \<lparr>mflags = {}, mult = 1, mrest = []\<rparr>,
      curkeymapname = ''main'', keymapnamtab = {''main'', ''vicmd''},
      nwatch = 0, watch_fds = [], watch_funcs = [],
      warnings = [], printed = []\<rparr>"

text \<open>A registry in which the name \<^verbatim>\<open>x\<close> is referenced once and names no widget.\<close>

definition referenced_registry :: registry where
  "referenced_registry =
     \<lparr>thingytab = [''x'' \<mapsto> \<lparr>flags = {DISABLED}, rc = 1, widget = None, samew = None\<rparr>],
      widgets = Map.empty, strings = Map.empty\<rparr>"

section \<open>Cycles of \<^verbatim>\<open>samew\<close> pointers\<close>

lemma samew_cycle_rotate1: "samew_cycle tt xs \<Longrightarrow> samew_cycle tt (rotate1 xs)"
  unfolding samew_cycle_def by (simp add: rotate1_map [symmetric])

lemma samew_cycle_rotate: "samew_cycle tt xs \<Longrightarrow> samew_cycle tt (rotate n xs)"
  by (induction n) (simp_all add: samew_cycle_rotate1)

lemma samew_cycle_start:
  assumes "samew_cycle tt xs" "t \<in> set xs"
  shows "\<exists>ys. samew_cycle tt (t # ys) \<and> set (t # ys) = set xs"
proof -
  from assms(2) obtain i where i: "i < length xs" "xs ! i = t"
    by (auto simp: in_set_conv_nth)
  let ?r = "rotate i xs"
  have ne: "xs \<noteq> []" using assms(2) by auto
  have "hd ?r = t" using i ne by (simp add: hd_rotate_conv_nth)
  moreover have "?r \<noteq> []" using ne by simp
  ultimately obtain ys where "?r = t # ys" by (cases ?r) auto
  moreover have "samew_cycle tt ?r" by (rule samew_cycle_rotate [OF assms(1)])
  moreover have "set ?r = set xs" by simp
  ultimately show ?thesis by metis
qed

lemma samew_cycle_Cons:
  "samew_cycle tt (t # ys) \<longleftrightarrow>
     t \<notin> set ys \<and> distinct ys \<and> nxt tt t = Some (hd (ys @ [t])) \<and>
     map (nxt tt) ys = map Some (tl (ys @ [t]))"
  unfolding samew_cycle_def by (cases ys) auto

lemma samew_cycle_single: "samew_cycle tt (t # ys) \<Longrightarrow> nxt tt t = Some t \<longleftrightarrow> ys = []"
  unfolding samew_cycle_Cons by (cases ys) auto

lemma samew_cycle_frame:
  "(\<And>x. x \<in> set xs \<Longrightarrow> nxt tt' x = nxt tt x) \<Longrightarrow> samew_cycle tt' xs = samew_cycle tt xs"
  unfolding samew_cycle_def by (metis (no_types, lifting) map_eq_conv)

lemma samew_cycle_insert:
  assumes "samew_cycle tt (f # ys)" "t \<notin> set (f # ys)"
    and "nxt tt' f = Some t" "nxt tt' t = nxt tt f" "\<And>x. x \<in> set ys \<Longrightarrow> nxt tt' x = nxt tt x"
  shows "samew_cycle tt' (f # t # ys)"
proof -
  have m: "map (nxt tt') ys = map (nxt tt) ys" using assms(5) by simp
  have old: "f \<notin> set ys" "distinct ys" "nxt tt f = Some (hd (ys @ [f]))"
    "map (nxt tt) ys = map Some (tl (ys @ [f]))"
    using assms(1) unfolding samew_cycle_Cons by auto
  have "map (nxt tt') (t # ys) = Some (hd (ys @ [f])) # map Some (tl (ys @ [f]))"
    using m old assms(4) by simp
  also have "\<dots> = map Some (ys @ [f])" by (cases ys) auto
  finally have "map (nxt tt') (t # ys) = map Some (tl ((t # ys) @ [f]))" by simp
  then show ?thesis using old assms(2,3) unfolding samew_cycle_Cons [of tt' f] by auto
qed

lemma samew_cycle_nth:
  "samew_cycle tt xs \<Longrightarrow> i < length xs \<Longrightarrow> nxt tt (xs ! i) = Some (xs ! (Suc i mod length xs))"
  unfolding samew_cycle_def
  by (metis nth_map nth_rotate1 length_rotate1)

lemma samew_cycle_remove:
  assumes "samew_cycle tt (t # ys)" "ys \<noteq> []"
    and "nxt tt' (last ys) = nxt tt t" "\<And>x. x \<in> set (butlast ys) \<Longrightarrow> nxt tt' x = nxt tt x"
  shows "samew_cycle tt' (last ys # butlast ys)"
proof -
  obtain zs p where ys: "ys = zs @ [p]" using assms(2) by (metis rev_exhaust)
  have m: "map (nxt tt') zs = map (nxt tt) zs" using assms(4) ys by simp
  have old: "t \<notin> set zs" "t \<noteq> p" "distinct (zs @ [p])" "nxt tt t = Some (hd (zs @ [p]))"
    "map (nxt tt) (zs @ [p]) = map Some (tl (zs @ [p, t]))"
    using assms(1) unfolding samew_cycle_Cons ys by (cases zs; auto)+
  have z: "map (nxt tt) zs = map Some (tl (zs @ [p]))"
    using old(5) by (cases zs) auto
  have "nxt tt' p = Some (hd (zs @ [p]))" using assms(3) old(4) ys by simp
  then have "samew_cycle tt' (p # zs)"
    unfolding samew_cycle_Cons using old m z by auto
  then show ?thesis using ys by simp
qed

lemma findprev_cycle_aux:
  assumes c: "samew_cycle tt (t # ys)" and tt: "tt = thingytab r"
  shows "i < length ys \<Longrightarrow> findprev r t (ys ! (length ys - 1 - i)) = Some (last ys)"
proof (induction i)
  case 0
  then have ne: "ys \<noteq> []" by auto
  have "nxt tt (last ys) = Some t"
    using samew_cycle_nth [OF c, of "length ys"] ne by (simp add: last_conv_nth)
  then show ?case using ne
    by (subst findprev.simps) (auto simp: nxt_def tt last_conv_nth split: option.splits)
next
  case (Suc i)
  let ?k = "length ys - 1 - Suc i"
  have k: "Suc ?k < length ys" "Suc ?k = length ys - 1 - i" using Suc.prems by auto
  have "nxt tt (ys ! ?k) = Some ((t # ys) ! (Suc (Suc ?k) mod length (t # ys)))"
    using samew_cycle_nth [OF c, of "Suc ?k"] k by simp
  then have n: "nxt tt (ys ! ?k) = Some (ys ! Suc ?k)" using k by simp
  have "ys ! Suc ?k \<noteq> t" using c k unfolding samew_cycle_Cons by (metis nth_mem)
  then show ?case using n Suc k
    by (subst findprev.simps) (auto simp: nxt_def tt split: option.splits)
qed

lemma findprev_cycle:
  assumes c: "samew_cycle (thingytab r) (t # ys)" and ne: "ys \<noteq> []" and x: "x \<in> set (t # ys)"
  shows "findprev r t x = Some (last ys)"
proof -
  have in_ys: "findprev r t y = Some (last ys)" if "y \<in> set ys" for y
  proof -
    from that obtain j where j: "j < length ys" "ys ! j = y" by (auto simp: in_set_conv_nth)
    have "findprev r t (ys ! (length ys - 1 - (length ys - 1 - j))) = Some (last ys)"
      by (rule findprev_cycle_aux [OF c refl]) (use j in auto)
    then show ?thesis using j by simp
  qed
  show ?thesis
  proof (cases "x = t")
    case False then show ?thesis using x in_ys by auto
  next
    case True
    have n: "nxt (thingytab r) t = Some (hd ys)" using c ne unfolding samew_cycle_Cons by simp
    have "hd ys \<noteq> t" using c ne unfolding samew_cycle_Cons by (metis hd_in_set)
    moreover have "findprev r t (hd ys) = Some (last ys)" using in_ys ne by simp
    ultimately show ?thesis using n True
      by (subst findprev.simps) (auto simp: nxt_def split: option.splits)
  qed
qed

section \<open>What the registry operations compute\<close>

lemma upd_thingy_Some:
  "thingytab r t = Some th \<Longrightarrow> upd_thingy t f r = Some (r\<lparr>thingytab := (thingytab r)(t \<mapsto> f th)\<rparr>)"
  by (simp add: upd_thingy_def)

lemma upd_widget_Some:
  "widgets r w = Some wd \<Longrightarrow> upd_widget w f r = Some (r\<lparr>widgets := (widgets r)(w \<mapsto> f wd)\<rparr>)"
  by (simp add: upd_widget_def)

lemma unrefthingy_Some:
  "thingytab r t = Some th \<Longrightarrow>
   unrefthingy (Some t) r =
     Some (r\<lparr>thingytab := (if rc th = 1 then (thingytab r)(t := None)
                              else (thingytab r)(t \<mapsto> th\<lparr>rc := rc th - 1\<rparr>))\<rparr>)"
  by (simp add: unrefthingy_def upd_thingy_def removenode_def)

lemma rthingy_eq:
  "rthingy nam r =
     Some (nam, r\<lparr>thingytab := (thingytab r)(nam \<mapsto>
             (case thingytab r nam of None \<Rightarrow> makethingynode\<lparr>rc := 1\<rparr>
              | Some th \<Rightarrow> th\<lparr>rc := rc th + 1\<rparr>))\<rparr>)"
  by (simp add: rthingy_def refthingy_def upd_thingy_def getnode2_def addnode_def
      makethingynode_def split: option.splits)

lemma freewidget_eq:
  assumes "widgets r w = Some wd" "u_ok wd"
  shows "freewidget w r =
     Some (r\<lparr>widgets := (widgets r)(w := None), strings := strings r |` (- owned_strings wd)\<rparr>)"
proof -
  have a: "(m(a := None))(b := None) = m |` (- {a, b})" for m :: "nat \<rightharpoonup> string" and a b
    by (auto simp: restrict_map_def)
  have b: "m(a := None) = m |` (- {a})" for m :: "nat \<rightharpoonup> string" and a
    by (auto simp: restrict_map_def)
  have c: "r\<lparr>strings := strings r |` (- {})\<rparr> = r" by (simp add: restrict_map_def)
  consider (comp) fn wid func where "WIDGET_NCOMP \<in> wflags wd" "u wd = U_comp fn wid func"
    | (user) fnnam where "WIDGET_NCOMP \<notin> wflags wd" "WIDGET_INT \<notin> wflags wd" "u wd = U_fnnam fnnam"
    | (native) "WIDGET_NCOMP \<notin> wflags wd" "WIDGET_INT \<in> wflags wd"
    using assms(2) by (auto simp: u_ok_def split: wunion.splits if_splits)
  then show ?thesis
  proof cases
    case comp
    then show ?thesis using assms(1)
      by (simp add: freewidget_def owned_strings_def zsfree_def zfree_widget_def a)
  next
    case user
    then show ?thesis using assms(1)
      by (simp add: freewidget_def owned_strings_def zsfree_def zfree_widget_def b)
  next
    case native
    then show ?thesis using assms(1)
      by (simp add: freewidget_def owned_strings_def zfree_widget_def restrict_map_def)
  qed
qed

lemma unbind_tail:
  assumes "thingytab r1 t = Some th"
  shows "do { r2 \<leftarrow> upd_thingy t (\<lambda>x. x\<lparr>flags := flags x - {TH_IMMORTAL}\<rparr>) r1;
              r3 \<leftarrow> upd_thingy t (\<lambda>x. x\<lparr>flags := insert DISABLED (flags x)\<rparr>) r2;
              r4 \<leftarrow> unrefthingy (Some t) r3;
              Some (0::int, r4) }
         = Some (0, r1\<lparr>thingytab := (if rc th = 1 then (thingytab r1)(t := None)
                                       else (thingytab r1)(t \<mapsto> disabled_thingy th))\<rparr>)"
  using assms
  by (simp add: upd_thingy_def unrefthingy_def removenode_def disabled_thingy_def)

lemma unbindwidget_sole:
  assumes "thingytab r t = Some th" "DISABLED \<notin> flags th" "ov \<noteq> 0 \<or> TH_IMMORTAL \<notin> flags th"
    and "widget th = Some w" "samew th = Some t" "widgets r w = Some wd" "u_ok wd"
  shows "unbindwidget t ov r =
     Some (0, r\<lparr>widgets := (widgets r)(w := None),
                 strings := strings r |` (- owned_strings wd),
                 thingytab := (if rc th = 1 then (thingytab r)(t := None)
                               else (thingytab r)(t \<mapsto> disabled_thingy th))\<rparr>)"
proof -
  let ?r1 = "r\<lparr>widgets := (widgets r)(w := None), strings := strings r |` (- owned_strings wd)\<rparr>"
  have f: "freewidget w r = Some ?r1" by (rule freewidget_eq [OF assms(6,7)])
  have t1: "thingytab ?r1 t = Some th" using assms(1) by simp
  show ?thesis
    unfolding unbindwidget_def using assms(1-5)
    by (simp add: f unbind_tail [OF t1])
qed

lemma unbindwidget_shared:
  assumes "thingytab r t = Some th" "DISABLED \<notin> flags th" "ov \<noteq> 0 \<or> TH_IMMORTAL \<notin> flags th"
    and "widget th = Some w" "samew th \<noteq> Some t" "widgets r w = Some wd" "first wd = Some f"
    and "findprev r t f = Some p" "thingytab r p = Some pth" "p \<noteq> t"
  shows "unbindwidget t ov r =
     Some (0, r\<lparr>widgets := (widgets r)(w \<mapsto> wd\<lparr>first := Some p\<rparr>),
                 thingytab := (if rc th = 1 then ((thingytab r)(p \<mapsto> pth\<lparr>samew := samew th\<rparr>))(t := None)
                               else (thingytab r)(p \<mapsto> pth\<lparr>samew := samew th\<rparr>, t \<mapsto> disabled_thingy th))\<rparr>)"
proof -
  let ?r1 = "r\<lparr>widgets := (widgets r)(w \<mapsto> wd\<lparr>first := Some p\<rparr>),
               thingytab := (thingytab r)(p \<mapsto> pth\<lparr>samew := samew th\<rparr>)\<rparr>"
  have t1: "thingytab ?r1 t = Some th" using assms(1,10) by simp
  have "unbindwidget t ov r =
     do { r2 \<leftarrow> upd_thingy t (\<lambda>x. x\<lparr>flags := flags x - {TH_IMMORTAL}\<rparr>) ?r1;
          r3 \<leftarrow> upd_thingy t (\<lambda>x. x\<lparr>flags := insert DISABLED (flags x)\<rparr>) r2;
          r4 \<leftarrow> unrefthingy (Some t) r3;
          Some (0::int, r4) }"
    unfolding unbindwidget_def using assms
    by (auto simp: upd_widget_def upd_thingy_def)
  then show ?thesis by (simp add: unbind_tail [OF t1])
qed

section \<open>Unbinding keeps the registry well-formed\<close>


lemma ring_frame:
  assumes "ring tt w fo" "bound_names tt' w = bound_names tt w"
    and "\<And>x. x \<in> bound_names tt w \<Longrightarrow> nxt tt' x = nxt tt x"
  shows "ring tt' w fo"
proof (cases fo)
  case None
  then show ?thesis using assms(1,2) by (simp add: ring_def)
next
  case (Some f)
  then obtain ys where c: "samew_cycle tt (f # ys)" and s: "set (f # ys) = bound_names tt w"
    using assms(1) unfolding ring_def by auto
  have "nxt tt' x = nxt tt x" if "x \<in> set (f # ys)" for x
    using that s assms(3) by blast
  then have "samew_cycle tt' (f # ys) = samew_cycle tt (f # ys)"
    by (rule samew_cycle_frame)
  then have "samew_cycle tt' (f # ys) \<and> set (f # ys) = bound_names tt' w"
    using c s assms(2) by simp
  then show ?thesis unfolding ring_def Some by auto
qed


lemma bound_namesD:
  "x \<in> bound_names tt w \<Longrightarrow> \<exists>xh. tt x = Some xh \<and> DISABLED \<notin> flags xh \<and> widget xh = Some w"
  by (simp add: bound_names_def)

lemma bound_namesI:
  "tt x = Some xh \<Longrightarrow> DISABLED \<notin> flags xh \<Longrightarrow> widget xh = Some w \<Longrightarrow> x \<in> bound_names tt w"
  by (simp add: bound_names_def)

lemma bound_names_rel:
  assumes "rel_option (\<lambda>a b. flags a = flags b \<and> rc a = rc b \<and> widget a = widget b) (tt x) (tt' x)"
  shows "x \<in> bound_names tt' w \<longleftrightarrow> x \<in> bound_names tt w"
  using assms by (cases "tt x"; cases "tt' x") (simp_all add: bound_names_def)

lemma unbind_effect_self:
  "unbind_effect r t th w wd r' \<Longrightarrow>
   thingytab r' t = (if rc th = 1 then None else Some (disabled_thingy th))"
  unfolding unbind_effect_def by (elim conjE)

lemma unbind_effect_other:
  "unbind_effect r t th w wd r' \<Longrightarrow> x \<noteq> t \<Longrightarrow>
   rel_option (\<lambda>a b. flags a = flags b \<and> rc a = rc b \<and> widget a = widget b)
     (thingytab r x) (thingytab r' x)"
  unfolding unbind_effect_def by (elim conjE allE [of _ x] impE)

lemma unbind_effect_widgets:
  "unbind_effect r t th w wd r' \<Longrightarrow> w' \<noteq> w \<Longrightarrow> widgets r' w' = widgets r w'"
  unfolding unbind_effect_def by (elim conjE allE [of _ w'] impE)

lemma unbind_effect_bound:
  assumes "unbind_effect r t th w wd r'"
  shows "bound_names (thingytab r') w' = bound_names (thingytab r) w' - {t}"
proof -
  have "thingytab r' t = None \<or> thingytab r' t = Some (disabled_thingy th)"
    using unbind_effect_self [OF assms] by (cases "rc th = 1") simp_all
  then have t': "t \<notin> bound_names (thingytab r') w'"
    unfolding bound_names_def disabled_thingy_def by (elim disjE) simp_all
  have o: "x \<in> bound_names (thingytab r') w' \<longleftrightarrow> x \<in> bound_names (thingytab r) w'"
    if "x \<noteq> t" for x
    by (rule bound_names_rel) (rule unbind_effect_other [OF assms that])
  show ?thesis
  proof (rule set_eqI)
    fix x
    show "x \<in> bound_names (thingytab r') w' \<longleftrightarrow> x \<in> bound_names (thingytab r) w' - {t}"
      by (cases "x = t") (use t' o in simp_all)
  qed
qed


lemma wf_ring_of_enabled:
  assumes "wf_registry r" "thingytab r t = Some th" "DISABLED \<notin> flags th"
  obtains w wd ys where "widget th = Some w" "widgets r w = Some wd" "u_ok wd"
    "samew_cycle (thingytab r) (t # ys)" "set (t # ys) = bound_names (thingytab r) w"
proof -
  have "thingy_ok r t th" using assms(1,2) unfolding wf_registry_def by blast
  then obtain w wd where w: "widget th = Some w" "widgets r w = Some wd"
    using assms(3) unfolding thingy_ok_def by blast
  then have rg: "ring (thingytab r) w (first wd)" and u: "u_ok wd"
    using assms(1) unfolding wf_registry_def by blast+
  have tb: "t \<in> bound_names (thingytab r) w"
    using assms(2,3) w(1) by (simp add: bound_names_def)
  have "\<exists>xs. samew_cycle (thingytab r) xs \<and> set xs = bound_names (thingytab r) w"
  proof (cases "first wd")
    case None
    then show ?thesis using rg tb by (simp add: ring_def)
  next
    case (Some f)
    then show ?thesis using rg unfolding ring_def by (simp only: option.case) blast
  qed
  then obtain xs where xs: "samew_cycle (thingytab r) xs" "set xs = bound_names (thingytab r) w"
    by blast
  have "t \<in> set xs" using tb xs(2) by simp
  from samew_cycle_start [OF xs(1) this] obtain ys
    where "samew_cycle (thingytab r) (t # ys)" "set (t # ys) = set xs" by blast
  then show ?thesis using that [OF w u] xs(2) by simp
qed


lemma rel_option_same: "(\<And>a. R a a) \<Longrightarrow> rel_option R x x"
  by (cases x) simp_all

lemma u_ok_first: "u_ok (wd\<lparr>first := f\<rparr>) = u_ok wd"
  by (simp add: u_ok_def)

lemma wf_after_unbind:
  assumes wf: "wf_registry r" and t: "thingytab r t = Some th"
    and w: "widget th = Some w" "widgets r w = Some wd"
    and eff: "unbind_effect r t th w wd r'"
    and sole: "samew th = Some t \<Longrightarrow> bound_names (thingytab r) w = {t}"
    and rings: "\<And>w' wd'. widgets r' w' = Some wd' \<Longrightarrow> ring (thingytab r') w' (first wd')"
  shows "wf_registry r'"
proof -
  have live: "widgets r' w' \<noteq> None"
    if "x \<noteq> t" "x \<in> bound_names (thingytab r) w'" "widgets r w' \<noteq> None" for x w'
  proof (cases "w' = w")
    case False
    then show ?thesis using unbind_effect_widgets [OF eff False] that(3) by simp
  next
    case True
    then have "samew th \<noteq> Some t" using sole that(1,2) by auto
    then obtain p where "widgets r' w = Some (wd\<lparr>first := Some p\<rparr>)"
      using eff unfolding unbind_effect_def by auto
    then show ?thesis using True by simp
  qed
  have ok: "thingy_ok r' x xh'" if x: "thingytab r' x = Some xh'" for x xh'
  proof (cases "x = t")
    case True
    have "thingy_ok r t th" using wf t unfolding wf_registry_def by blast
    then have "1 \<le> rc th" unfolding thingy_ok_def by simp
    moreover have "rc th \<noteq> 1 \<and> xh' = disabled_thingy th"
      using unbind_effect_self [OF eff] x True by (cases "rc th = 1") simp_all
    ultimately show ?thesis unfolding thingy_ok_def disabled_thingy_def by simp
  next
    case False
    have "rel_option (\<lambda>a b. flags a = flags b \<and> rc a = rc b \<and> widget a = widget b)
            (thingytab r x) (thingytab r' x)"
      by (rule unbind_effect_other [OF eff False])
    then obtain xh where xh: "thingytab r x = Some xh" "flags xh = flags xh'" "rc xh = rc xh'"
        "widget xh = widget xh'"
      using x by (cases "thingytab r x") simp_all
    have o: "thingy_ok r x xh" using wf xh(1) unfolding wf_registry_def by blast
    have "\<exists>w'. widget xh' = Some w' \<and> widgets r' w' \<noteq> None" if en: "DISABLED \<notin> flags xh'"
    proof -
      from o en xh obtain w' where w': "widget xh = Some w'" "widgets r w' \<noteq> None"
        unfolding thingy_ok_def by auto
      have "x \<in> bound_names (thingytab r) w'"
        using xh en w' by (simp add: bound_names_def)
      from live [OF False this w'(2)] show ?thesis using w'(1) xh(4) by simp
    qed
    then show ?thesis using o xh unfolding thingy_ok_def by simp
  qed
  have uok: "u_ok wd'" if "widgets r' w' = Some wd'" for w' wd'
  proof (cases "w' = w")
    case False
    then have "widgets r w' = Some wd'" using unbind_effect_widgets [OF eff False] that by simp
    then show ?thesis using wf unfolding wf_registry_def by blast
  next
    case True
    have "u_ok wd" using wf w(2) unfolding wf_registry_def by blast
    moreover have "\<exists>p. wd' = wd\<lparr>first := Some p\<rparr>"
      using eff that True unfolding unbind_effect_def by (cases "samew th = Some t") auto
    ultimately show ?thesis by (auto simp: u_ok_first)
  qed
  show ?thesis unfolding wf_registry_def using ok uok rings by blast
qed


lemma ring_other_after_unbind:
  assumes rg: "ring (thingytab r) w' fo" and ne: "w' \<noteq> w" and t: "thingytab r t = Some th"
    and w: "widget th = Some w"
    and eff: "unbind_effect r t th w wd r'"
    and nx: "\<And>x. x \<in> bound_names (thingytab r) w' \<Longrightarrow> nxt (thingytab r') x = nxt (thingytab r) x"
  shows "ring (thingytab r') w' fo"
proof -
  have "t \<notin> bound_names (thingytab r) w'" using t w ne by (simp add: bound_names_def)
  then have "bound_names (thingytab r') w' = bound_names (thingytab r) w'"
    using unbind_effect_bound [OF eff, of w'] by simp
  then show ?thesis by (rule ring_frame [OF rg _ nx])
qed

lemma unbindwidget_enabled:
  assumes wf: "wf_registry r" and t: "thingytab r t = Some th" and en: "DISABLED \<notin> flags th"
    and ov: "ov \<noteq> 0 \<or> TH_IMMORTAL \<notin> flags th"
  obtains r' w wd where "unbindwidget t ov r = Some (0, r')" "widget th = Some w"
    "widgets r w = Some wd" "unbind_effect r t th w wd r'" "wf_registry r'"
    "samew th = Some t \<longleftrightarrow> bound_names (thingytab r) w = {t}"
proof -
  let ?tt = "thingytab r"
  from wf_ring_of_enabled [OF wf t en] obtain w wd ys where
    w: "widget th = Some w" "widgets r w = Some wd" and u: "u_ok wd"
    and c: "samew_cycle ?tt (t # ys)" and s: "set (t # ys) = bound_names ?tt w"
    by blast
  have nt: "nxt ?tt t = samew th" by (simp add: nxt_def t)
  have dist: "t \<notin> set ys" "distinct ys" using c unfolding samew_cycle_Cons by simp_all
  have sole_ys: "samew th = Some t \<longleftrightarrow> ys = []" using samew_cycle_single [OF c] nt by simp
  have ys_b: "ys = [] \<longleftrightarrow> bound_names ?tt w = {t}"
  proof
    assume "ys = []" then show "bound_names ?tt w = {t}" using s by simp
  next
    assume "bound_names ?tt w = {t}"
    then have "set ys \<subseteq> {t}" using s by auto
    then show "ys = []" using dist(1) by (cases ys) auto
  qed
  have sole_b: "samew th = Some t \<longleftrightarrow> bound_names ?tt w = {t}" using sole_ys ys_b by simp
  show ?thesis
  proof (cases "ys = []")
    case True
    then have st: "samew th = Some t" using sole_ys by simp
    let ?r' = "r\<lparr>widgets := (widgets r)(w := None),
                 strings := strings r |` (- owned_strings wd),
                 thingytab := (if rc th = 1 then (thingytab r)(t := None)
                               else (thingytab r)(t \<mapsto> disabled_thingy th))\<rparr>"
    have res: "unbindwidget t ov r = Some (0, ?r')"
      by (rule unbindwidget_sole [OF t en ov w(1) st w(2) u])
    have other: "thingytab ?r' x = thingytab r x" if "x \<noteq> t" for x using that by simp
    have eff: "unbind_effect r t th w wd ?r'"
      unfolding unbind_effect_def using st by (simp add: rel_option_same)
    have rings: "ring (thingytab ?r') w' (first wd')" if "widgets ?r' w' = Some wd'" for w' wd'
    proof -
      have ne: "w' \<noteq> w" and old: "widgets r w' = Some wd'"
        using that by (auto split: if_splits)
      have rg: "ring ?tt w' (first wd')" using wf old unfolding wf_registry_def by blast
      have "nxt (thingytab ?r') x = nxt ?tt x" if "x \<in> bound_names ?tt w'" for x
      proof -
        have "x \<noteq> t" using that t w(1) ne by (auto simp: bound_names_def)
        then show ?thesis using other [of x] by (simp add: nxt_def)
      qed
      then show ?thesis by (rule ring_other_after_unbind [OF rg ne t w(1) eff])
    qed
    have "wf_registry ?r'"
      by (rule wf_after_unbind [OF wf t w eff _ rings]) (use sole_b in simp_all)
    then show ?thesis using that [OF res w eff _ sole_b] by simp
  next
    case False
    then have nst: "samew th \<noteq> Some t" using sole_ys by simp
    let ?p = "last ys"
    have p_in: "?p \<in> set ys" using False by simp
    then have pt: "?p \<noteq> t" using dist(1) by auto
    have "?p \<in> bound_names ?tt w" using p_in s by auto
    then obtain pth where pth: "?tt ?p = Some pth" "DISABLED \<notin> flags pth" "widget pth = Some w"
      by (auto simp: bound_names_def)
    have rg: "ring ?tt w (first wd)" using wf w(2) unfolding wf_registry_def by blast
    have tb: "t \<in> bound_names ?tt w" using s by auto
    obtain f where f: "first wd = Some f" "f \<in> bound_names ?tt w"
    proof (cases "first wd")
      case None
      then show ?thesis using rg tb by (simp add: ring_def)
    next
      case (Some f)
      then obtain zs where "set (f # zs) = bound_names ?tt w" using rg by (auto simp: ring_def)
      then have "f \<in> bound_names ?tt w" by auto
      then show ?thesis using that Some by simp
    qed
    have "f \<in> set (t # ys)" using f(2) s by simp
    then have fp: "findprev r t f = Some ?p" by (rule findprev_cycle [OF c False])
    let ?tp = "(thingytab r)(?p \<mapsto> pth\<lparr>samew := samew th\<rparr>)"
    let ?r' = "r\<lparr>widgets := (widgets r)(w \<mapsto> wd\<lparr>first := Some ?p\<rparr>),
                 thingytab := (if rc th = 1 then ?tp(t := None)
                               else ?tp(t \<mapsto> disabled_thingy th))\<rparr>"
    have res: "unbindwidget t ov r = Some (0, ?r')"
      by (rule unbindwidget_shared [OF t en ov w(1) nst w(2) f(1) fp pth(1) pt])
    have other: "thingytab ?r' x = ?tp x" if "x \<noteq> t" for x using that by simp
    have eff: "unbind_effect r t th w wd ?r'"
      unfolding unbind_effect_def using nst pt pth(1)
      by (auto simp: rel_option_same)
    have nx_p: "nxt (thingytab ?r') ?p = nxt ?tt t"
      using pt t other [of ?p] by (simp add: nxt_def)
    have nx_o: "nxt (thingytab ?r') x = nxt ?tt x" if "x \<noteq> t" "x \<noteq> ?p" for x
      using that other [of x] by (simp add: nxt_def)
    have rings: "ring (thingytab ?r') w' (first wd')" if "widgets ?r' w' = Some wd'" for w' wd'
    proof (cases "w' = w")
      case ne: False
      then have old: "widgets r w' = Some wd'" using that by simp
      have rg': "ring ?tt w' (first wd')" using wf old unfolding wf_registry_def by blast
      have "nxt (thingytab ?r') x = nxt ?tt x" if "x \<in> bound_names ?tt w'" for x
      proof -
        have "x \<noteq> t" "x \<noteq> ?p" using that t w(1) pth ne by (auto simp: bound_names_def)
        then show ?thesis by (rule nx_o)
      qed
      then show ?thesis by (rule ring_other_after_unbind [OF rg' ne t w(1) eff])
    next
      case True
      then have wd': "first wd' = Some ?p" using that by auto
      have "samew_cycle (thingytab ?r') (?p # butlast ys)"
      proof (rule samew_cycle_remove [OF c False nx_p])
        fix x assume x: "x \<in> set (butlast ys)"
        then have "x \<in> set ys" by (rule in_set_butlastD)
        then have "x \<noteq> t" using dist(1) by auto
        moreover have "x \<noteq> ?p"
          using x dist(2) False by (metis append_butlast_last_id distinct_append not_distinct_conv_prefix distinct.simps(2) disjoint_iff list.set_intros(1) set_append)
        ultimately show "nxt (thingytab ?r') x = nxt ?tt x" by (rule nx_o)
      qed
      moreover have "set (?p # butlast ys) = bound_names (thingytab ?r') w"
      proof -
        have "set (?p # butlast ys) = set ys"
          using False by (metis append_butlast_last_id insert_is_Un list.simps(15) rotate1.simps(2) set_rotate1 sup_commute)
        also have "\<dots> = bound_names ?tt w - {t}" using s dist(1) by auto
        also have "\<dots> = bound_names (thingytab ?r') w" by (rule unbind_effect_bound [OF eff, symmetric])
        finally show ?thesis .
      qed
      ultimately show ?thesis unfolding ring_def wd' True by auto
    qed
    have "wf_registry ?r'"
      by (rule wf_after_unbind [OF wf t w eff _ rings]) (use sole_b in simp_all)
    then show ?thesis using that [OF res w eff _ sole_b] by simp
  qed
qed

section \<open>Binding keeps the registry well-formed\<close>


lemma bindwidget_splice_first:
  assumes "thingytab r t = Some th" "widgets r w = Some wd" "first wd = Some f"
    and "thingytab r f = Some fth" "f \<noteq> t"
  shows "bindwidget_splice (Some w) t r =
     Some (r\<lparr>thingytab := (thingytab r)
              (f \<mapsto> fth\<lparr>samew := Some t\<rparr>,
               t \<mapsto> th\<lparr>samew := samew fth, widget := Some w, flags := flags th - {DISABLED}\<rparr>)\<rparr>)"
  using assms by (simp add: bindwidget_splice_def upd_thingy_def fun_upd_twist)

lemma bindwidget_splice_null:
  assumes "thingytab r t = Some th" "widgets r w = Some wd" "first wd = None"
  shows "bindwidget_splice (Some w) t r =
     Some (r\<lparr>widgets := (widgets r)(w \<mapsto> wd\<lparr>first := Some t\<rparr>),
              thingytab := (thingytab r)
              (t \<mapsto> th\<lparr>samew := Some t, widget := Some w, flags := flags th - {DISABLED}\<rparr>)\<rparr>)"
  using assms by (simp add: bindwidget_splice_def upd_thingy_def upd_widget_def)

lemma bind_effect_self:
  "bind_effect r t th w r' \<Longrightarrow>
   \<exists>sw. thingytab r' t =
        Some (th\<lparr>samew := sw, widget := Some w, flags := flags th - {DISABLED},
                 rc := (if DISABLED \<in> flags th then rc th else rc th - 1)\<rparr>)"
  unfolding bind_effect_def by (elim conjE)

lemma bind_effect_other:
  "bind_effect r t th w r' \<Longrightarrow> x \<noteq> t \<Longrightarrow>
   rel_option (\<lambda>a b. flags a = flags b \<and> rc a = rc b \<and> widget a = widget b)
     (thingytab r x) (thingytab r' x)"
  unfolding bind_effect_def by (elim conjE allE [of _ x] impE)

lemma bind_effect_live:
  "bind_effect r t th w r' \<Longrightarrow>
   \<exists>wd f. widgets r w = Some wd \<and> widgets r' w = Some (wd\<lparr>first := Some f\<rparr>)"
  unfolding bind_effect_def by (elim conjE)

lemma bind_effect_widgets:
  "bind_effect r t th w r' \<Longrightarrow> w' \<noteq> w \<Longrightarrow>
   rel_option (\<lambda>a b. wflags a = wflags b \<and> u a = u b) (widgets r w') (widgets r' w') \<or>
   (widgets r' w' = None \<and> bound_names (thingytab r) w' = {t})"
  unfolding bind_effect_def by (elim conjE allE [of _ w'] impE)

lemma bind_effect_bound:
  assumes "bind_effect r t th w r'"
  shows "bound_names (thingytab r') w' =
     (if w' = w then insert t (bound_names (thingytab r) w') else bound_names (thingytab r) w' - {t})"
proof -
  from bind_effect_self [OF assms] obtain sw where
    "thingytab r' t = Some (th\<lparr>samew := sw, widget := Some w, flags := flags th - {DISABLED},
                 rc := (if DISABLED \<in> flags th then rc th else rc th - 1)\<rparr>)" by blast
  then have t': "t \<in> bound_names (thingytab r') w' \<longleftrightarrow> w' = w"
    unfolding bound_names_def by (simp add: eq_commute [of w w'])
  have o: "x \<in> bound_names (thingytab r') w' \<longleftrightarrow> x \<in> bound_names (thingytab r) w'"
    if "x \<noteq> t" for x
    by (rule bound_names_rel) (rule bind_effect_other [OF assms that])
  show ?thesis
  proof (rule set_eqI)
    fix x
    show "x \<in> bound_names (thingytab r') w' \<longleftrightarrow>
       x \<in> (if w' = w then insert t (bound_names (thingytab r) w') else bound_names (thingytab r) w' - {t})"
      by (cases "x = t") (use t' o in simp_all)
  qed
qed


lemma bindwidget_splice_wf:
  assumes wf: "wf_registry r" and t: "thingytab r t = Some th" and dis: "DISABLED \<in> flags th"
    and w: "widgets r w = Some wd"
  obtains r' where "bindwidget_splice (Some w) t r = Some r'" "bind_effect r t th w r'"
    "wf_registry r'"
proof -
  let ?tt = "thingytab r"
  have tok: "thingy_ok r t th" using wf t unfolding wf_registry_def by blast
  then have imm: "TH_IMMORTAL \<notin> flags th" and rc1: "1 \<le> rc th"
    using dis unfolding thingy_ok_def by auto
  have tnb: "t \<notin> bound_names ?tt w'" for w' using t dis by (simp add: bound_names_def)
  have rg: "ring ?tt w (first wd)" and u: "u_ok wd" using wf w unfolding wf_registry_def by blast+
  note fin = that
  have main: thesis
    if res: "bindwidget_splice (Some w) t r = Some r'"
      and tt': "thingytab r' = tt'" and ws': "widgets r' = (widgets r)(w \<mapsto> wd\<lparr>first := Some f\<rparr>)"
      and t': "tt' t = Some (th\<lparr>samew := sw, widget := Some w, flags := flags th - {DISABLED}\<rparr>)"
      and o': "\<And>x. x \<noteq> t \<Longrightarrow> rel_option (\<lambda>a b. flags a = flags b \<and> rc a = rc b \<and> widget a = widget b) (?tt x) (tt' x)"
      and nx': "\<And>x w'. w' \<noteq> w \<Longrightarrow> x \<in> bound_names ?tt w' \<Longrightarrow> nxt tt' x = nxt ?tt x"
      and cyc': "\<exists>ys. samew_cycle tt' (f # ys) \<and> set (f # ys) = insert t (bound_names ?tt w)"
    for r' tt' f sw
  proof -
    have e1: "\<exists>sw. thingytab r' t =
        Some (th\<lparr>samew := sw, widget := Some w, flags := flags th - {DISABLED},
                 rc := (if DISABLED \<in> flags th then rc th else rc th - 1)\<rparr>)"
      using t' dis by (intro exI [of _ sw]) (simp add: tt')
    have e2: "\<forall>x. x \<noteq> t \<longrightarrow>
        rel_option (\<lambda>a b. flags a = flags b \<and> rc a = rc b \<and> widget a = widget b)
          (thingytab r x) (thingytab r' x)"
      using o' by (simp add: tt')
    have e3: "\<exists>wd f. widgets r w = Some wd \<and> widgets r' w = Some (wd\<lparr>first := Some f\<rparr>)"
      by (intro exI [of _ wd] exI [of _ f]) (simp add: w ws')
    have e4: "\<forall>w'. w' \<noteq> w \<longrightarrow>
        rel_option (\<lambda>a b. wflags a = wflags b \<and> u a = u b) (widgets r w') (widgets r' w') \<or>
        (widgets r' w' = None \<and> bound_names (thingytab r) w' = {t})"
      by (simp add: ws' rel_option_same)
    have eff: "bind_effect r t th w r'"
      unfolding bind_effect_def using e1 e2 e3 e4 by (intro conjI)
    have bn: "bound_names tt' w' =
       (if w' = w then insert t (bound_names ?tt w') else bound_names ?tt w' - {t})" for w'
      using bind_effect_bound [OF eff, of w'] tt' by simp
    have live: "widgets r' w' \<noteq> None" if "widgets r w' \<noteq> None" for w'
      using that by (simp add: ws')
    have ok: "thingy_ok r' x xh'" if x: "thingytab r' x = Some xh'" for x xh'
    proof (cases "x = t")
      case True
      then have "xh' = th\<lparr>samew := sw, widget := Some w, flags := flags th - {DISABLED}\<rparr>"
        using x t' tt' by simp
      moreover have "widgets r' w \<noteq> None" by (simp add: ws')
      ultimately show ?thesis using imm rc1 unfolding thingy_ok_def by simp
    next
      case False
      from o' [OF False] obtain xh where xh: "?tt x = Some xh" "flags xh = flags xh'"
          "rc xh = rc xh'" "widget xh = widget xh'"
        using x tt' by (cases "?tt x") simp_all
      have o: "thingy_ok r x xh" using wf xh(1) unfolding wf_registry_def by blast
      have "\<exists>w'. widget xh' = Some w' \<and> widgets r' w' \<noteq> None" if en: "DISABLED \<notin> flags xh'"
      proof -
        from o en xh(2) obtain w' where w': "widget xh = Some w'" "widgets r w' \<noteq> None"
          unfolding thingy_ok_def by auto
        then show ?thesis using live [of w'] xh(4) by simp
      qed
      then show ?thesis using o xh(2,3) unfolding thingy_ok_def by simp
    qed
    have rings: "ring (thingytab r') w' (first wd') \<and> u_ok wd'"
      if "widgets r' w' = Some wd'" for w' wd'
    proof (cases "w' = w")
      case True
      then have "wd' = wd\<lparr>first := Some f\<rparr>" using that ws' by simp
      then show ?thesis using cyc' bn [of w] u True tt' by (simp add: ring_def u_ok_first)
    next
      case False
      then have old: "widgets r w' = Some wd'" using that ws' by simp
      then have rg': "ring ?tt w' (first wd')" and u': "u_ok wd'"
        using wf unfolding wf_registry_def by blast+
      have "bound_names tt' w' = bound_names ?tt w'" using bn [of w'] False tnb by simp
      then have "ring tt' w' (first wd')"
        by (rule ring_frame [OF rg']) (rule nx' [OF False])
      then show ?thesis using u' tt' by simp
    qed
    have "wf_registry r'" unfolding wf_registry_def using ok rings by blast
    then show thesis by (rule fin [OF res eff])
  qed
  show thesis
  proof (cases "first wd")
    case None
    let ?th' = "th\<lparr>samew := Some t, widget := Some w, flags := flags th - {DISABLED}\<rparr>"
    let ?r' = "r\<lparr>widgets := (widgets r)(w \<mapsto> wd\<lparr>first := Some t\<rparr>),
                 thingytab := ?tt(t \<mapsto> ?th')\<rparr>"
    have e: "bound_names ?tt w = {}" using rg None by (simp add: ring_def)
    show ?thesis
    proof (rule main [of ?r' "?tt(t \<mapsto> ?th')" t "Some t"])
      show "bindwidget_splice (Some w) t r = Some ?r'"
        by (rule bindwidget_splice_null [OF t w None])
      show "\<exists>ys. samew_cycle (?tt(t \<mapsto> ?th')) (t # ys) \<and> set (t # ys) = insert t (bound_names ?tt w)"
        using e by (intro exI [of _ "[]"]) (simp add: samew_cycle_def nxt_def)
      show "nxt (?tt(t \<mapsto> ?th')) x = nxt ?tt x" if "w' \<noteq> w" "x \<in> bound_names ?tt w'" for x w'
      proof -
        have "x \<noteq> t" using that(2) tnb by auto
        then show ?thesis by (simp add: nxt_def)
      qed
    qed (simp_all add: rel_option_same)
  next
    case (Some f)
    then obtain ys where c: "samew_cycle ?tt (f # ys)" and s: "set (f # ys) = bound_names ?tt w"
      using rg by (auto simp: ring_def)
    have "f \<in> bound_names ?tt w" using s by auto
    then obtain fth where fth: "?tt f = Some fth" "DISABLED \<notin> flags fth" "widget fth = Some w"
      by (auto simp: bound_names_def)
    have ft: "f \<noteq> t" using fth t dis by auto
    let ?th' = "th\<lparr>samew := samew fth, widget := Some w, flags := flags th - {DISABLED}\<rparr>"
    let ?tt' = "?tt(f \<mapsto> fth\<lparr>samew := Some t\<rparr>, t \<mapsto> ?th')"
    let ?r' = "r\<lparr>thingytab := ?tt'\<rparr>"
    have wdf: "wd\<lparr>first := Some f\<rparr> = wd" using Some by simp
    show ?thesis
    proof (rule main [of ?r' ?tt' f "samew fth"])
      show "bindwidget_splice (Some w) t r = Some ?r'"
        by (rule bindwidget_splice_first [OF t w Some fth(1) ft])
      show "widgets ?r' = (widgets r)(w \<mapsto> wd\<lparr>first := Some f\<rparr>)"
        using w by (simp add: wdf fun_upd_idem)
      show "rel_option (\<lambda>a b. flags a = flags b \<and> rc a = rc b \<and> widget a = widget b) (?tt x) (?tt' x)"
        if "x \<noteq> t" for x using that fth(1) by (simp add: rel_option_same)
      show "nxt ?tt' x = nxt ?tt x" if "w' \<noteq> w" "x \<in> bound_names ?tt w'" for x w'
      proof -
        have "x \<noteq> t" using that(2) tnb by auto
        moreover have "x \<noteq> f" using that fth by (auto simp: bound_names_def)
        ultimately show ?thesis by (simp add: nxt_def)
      qed
      have "samew_cycle ?tt' (f # t # ys)"
      proof (rule samew_cycle_insert [OF c])
        show "t \<notin> set (f # ys)" using s tnb by simp
        show "nxt ?tt' f = Some t" using ft by (simp add: nxt_def)
        show "nxt ?tt' t = nxt ?tt f" using fth(1) by (simp add: nxt_def)
        show "nxt ?tt' x = nxt ?tt x" if "x \<in> set ys" for x
        proof -
          have "x \<noteq> f" using that c unfolding samew_cycle_Cons by auto
          moreover have "x \<noteq> t" using that s tnb [of w] by auto
          ultimately show ?thesis by (simp add: nxt_def)
        qed
      qed
      moreover have "set (f # t # ys) = insert t (bound_names ?tt w)" using s by auto
      ultimately show "\<exists>zs. samew_cycle ?tt' (f # zs) \<and> set (f # zs) = insert t (bound_names ?tt w)"
        by blast
    qed simp_all
  qed
qed


lemma wf_registry_strings [simp]: "wf_registry (r\<lparr>strings := s\<rparr>) = wf_registry r"
  by (simp add: wf_registry_def thingy_ok_def)

lemma wf_refcount_change:
  assumes wf: "wf_registry r" and ws: "widgets r' = widgets r"
    and tt: "\<And>x. (thingytab r' x = None \<and> (\<forall>xh. thingytab r x = Some xh \<longrightarrow> DISABLED \<in> flags xh)) \<or>
       (\<exists>xh'. thingytab r' x = Some xh' \<and> 1 \<le> rc xh' \<and>
          (thingytab r x = None \<and> flags xh' = {DISABLED} \<or>
           (\<exists>xh. thingytab r x = Some xh \<and> flags xh' = flags xh \<and> widget xh' = widget xh \<and>
              samew xh' = samew xh)))"
  shows "wf_registry r'"
proof -
  have bn: "bound_names (thingytab r') w = bound_names (thingytab r) w" for w
  proof (rule set_eqI)
    fix x
    show "x \<in> bound_names (thingytab r') w \<longleftrightarrow> x \<in> bound_names (thingytab r) w"
      using tt [of x] unfolding bound_names_def by (elim disjE exE conjE) simp_all
  qed
  have nx: "nxt (thingytab r') x = nxt (thingytab r) x" if "x \<in> bound_names (thingytab r) w" for x w
  proof -
    from that obtain xh where xh: "thingytab r x = Some xh" "DISABLED \<notin> flags xh"
      unfolding bound_names_def by blast
    then show ?thesis using tt [of x] unfolding nxt_def by (elim disjE exE conjE) simp_all
  qed
  have ok: "thingy_ok r' x xh'" if x: "thingytab r' x = Some xh'" for x xh'
  proof -
    consider (new) "1 \<le> rc xh'" "thingytab r x = None" "flags xh' = {DISABLED}"
      | (old) xh where "1 \<le> rc xh'" "thingytab r x = Some xh" "flags xh' = flags xh"
          "widget xh' = widget xh"
      using tt [of x] x by (elim disjE exE conjE) simp_all
    then show ?thesis
    proof cases
      case new
      then show ?thesis unfolding thingy_ok_def by simp
    next
      case old
      have "thingy_ok r x xh" using wf old(2) unfolding wf_registry_def by blast
      then show ?thesis using old(1,3,4) unfolding thingy_ok_def by (simp add: ws)
    qed
  qed
  have rings: "ring (thingytab r') w (first wd) \<and> u_ok wd" if "widgets r' w = Some wd" for w wd
  proof -
    have old: "widgets r w = Some wd" using that by (simp add: ws)
    then have rg: "ring (thingytab r) w (first wd)" and u: "u_ok wd"
      using wf unfolding wf_registry_def by blast+
    have "ring (thingytab r') w (first wd)" by (rule ring_frame [OF rg bn nx])
    then show ?thesis using u by simp
  qed
  show ?thesis unfolding wf_registry_def using ok rings by blast
qed

lemma wf_rthingy:
  assumes "wf_registry r"
  shows "wf_registry (r\<lparr>thingytab := (thingytab r)(nam \<mapsto>
             (case thingytab r nam of None \<Rightarrow> makethingynode\<lparr>rc := 1\<rparr>
              | Some th \<Rightarrow> th\<lparr>rc := rc th + 1\<rparr>))\<rparr>)"
proof (rule wf_refcount_change [OF assms])
  fix x
  let ?r' = "r\<lparr>thingytab := (thingytab r)(nam \<mapsto>
             (case thingytab r nam of None \<Rightarrow> makethingynode\<lparr>rc := 1\<rparr>
              | Some th \<Rightarrow> th\<lparr>rc := rc th + 1\<rparr>))\<rparr>"
  have rc: "1 \<le> rc xh" if "thingytab r x = Some xh" for xh
    using assms that unfolding wf_registry_def thingy_ok_def by blast
  show "(thingytab ?r' x = None \<and> (\<forall>xh. thingytab r x = Some xh \<longrightarrow> DISABLED \<in> flags xh)) \<or>
       (\<exists>xh'. thingytab ?r' x = Some xh' \<and> 1 \<le> rc xh' \<and>
          (thingytab r x = None \<and> flags xh' = {DISABLED} \<or>
           (\<exists>xh. thingytab r x = Some xh \<and> flags xh' = flags xh \<and> widget xh' = widget xh \<and>
              samew xh' = samew xh)))"
  proof (cases "thingytab r x")
    case None
    then show ?thesis by (cases "x = nam") (simp_all add: makethingynode_def)
  next
    case (Some xh)
    then show ?thesis using rc [OF Some] by (cases "x = nam") simp_all
  qed
qed simp

lemma wf_unref:
  assumes "wf_registry r" "thingytab r t = Some th" "2 \<le> rc th"
  shows "wf_registry (r\<lparr>thingytab := (thingytab r)(t \<mapsto> th\<lparr>rc := rc th - 1\<rparr>)\<rparr>)"
proof (rule wf_refcount_change [OF assms(1)])
  fix x
  let ?r' = "r\<lparr>thingytab := (thingytab r)(t \<mapsto> th\<lparr>rc := rc th - 1\<rparr>)\<rparr>"
  have rc: "1 \<le> rc xh" if "thingytab r x = Some xh" for xh
    using assms(1) that unfolding wf_registry_def thingy_ok_def by blast
  show "(thingytab ?r' x = None \<and> (\<forall>xh. thingytab r x = Some xh \<longrightarrow> DISABLED \<in> flags xh)) \<or>
       (\<exists>xh'. thingytab ?r' x = Some xh' \<and> 1 \<le> rc xh' \<and>
          (thingytab r x = None \<and> flags xh' = {DISABLED} \<or>
           (\<exists>xh. thingytab r x = Some xh \<and> flags xh' = flags xh \<and> widget xh' = widget xh \<and>
              samew xh' = samew xh)))"
  proof (cases "thingytab r x")
    case None
    then show ?thesis using assms(2) by (cases "x = t") simp_all
  next
    case (Some xh)
    then show ?thesis using rc [OF Some] assms(2,3) by (cases "x = t") simp_all
  qed
qed simp

lemma wf_unref_disabled:
  assumes "wf_registry r" "thingytab r t = Some th" "DISABLED \<in> flags th"
  shows "wf_registry (r\<lparr>thingytab := (if rc th = 1 then (thingytab r)(t := None)
                              else (thingytab r)(t \<mapsto> th\<lparr>rc := rc th - 1\<rparr>))\<rparr>)"
proof (rule wf_refcount_change [OF assms(1)])
  fix x
  let ?r' = "r\<lparr>thingytab := (if rc th = 1 then (thingytab r)(t := None)
                              else (thingytab r)(t \<mapsto> th\<lparr>rc := rc th - 1\<rparr>))\<rparr>"
  have rc: "1 \<le> rc xh" if "thingytab r x = Some xh" for x xh
    using assms(1) that unfolding wf_registry_def thingy_ok_def by blast
  show "(thingytab ?r' x = None \<and> (\<forall>xh. thingytab r x = Some xh \<longrightarrow> DISABLED \<in> flags xh)) \<or>
       (\<exists>xh'. thingytab ?r' x = Some xh' \<and> 1 \<le> rc xh' \<and>
          (thingytab r x = None \<and> flags xh' = {DISABLED} \<or>
           (\<exists>xh. thingytab r x = Some xh \<and> flags xh' = flags xh \<and> widget xh' = widget xh \<and>
              samew xh' = samew xh)))"
  proof (cases "thingytab r x")
    case None
    then show ?thesis using assms(2) by (cases "x = t") simp_all
  next
    case (Some xh)
    then show ?thesis using rc [OF Some] rc [OF assms(2)] assms(2,3)
      by (cases "x = t"; cases "rc th = 1") simp_all
  qed
qed simp

lemma unbound_of_dead:
  assumes "wf_registry r" "widgets r w = None"
  shows "bound_names (thingytab r) w = {}"
proof -
  have "x \<notin> bound_names (thingytab r) w" for x
  proof
    assume "x \<in> bound_names (thingytab r) w"
    then obtain xh where xh: "thingytab r x = Some xh" "DISABLED \<notin> flags xh" "widget xh = Some w"
      unfolding bound_names_def by blast
    have "thingy_ok r x xh" using assms(1) xh(1) unfolding wf_registry_def by blast
    then show False using xh(2,3) assms(2) unfolding thingy_ok_def by simp
  qed
  then show ?thesis by blast
qed

lemma wf_zalloc_widget:
  assumes wf: "wf_registry r" and fresh: "widgets r wa = None" and u: "u_ok wd" and f: "first wd = None"
  shows "wf_registry (zalloc_widget wa wd r)"
proof -
  let ?r' = "zalloc_widget wa wd r"
  have tt: "thingytab ?r' = thingytab r" and ws: "widgets ?r' = (widgets r)(wa \<mapsto> wd)"
    by (simp_all add: zalloc_widget_def)
  have ok: "thingy_ok ?r' x xh" if "thingytab ?r' x = Some xh" for x xh
  proof -
    have "thingy_ok r x xh" using wf that tt unfolding wf_registry_def by simp
    then show ?thesis unfolding thingy_ok_def ws by auto
  qed
  have rings: "ring (thingytab ?r') w (first wd') \<and> u_ok wd'" if "widgets ?r' w = Some wd'" for w wd'
  proof (cases "w = wa")
    case True
    then have "wd' = wd" using that ws by simp
    then show ?thesis using True u f unbound_of_dead [OF wf fresh] tt by (simp add: ring_def)
  next
    case False
    then have "widgets r w = Some wd'" using that ws by simp
    then show ?thesis using wf tt unfolding wf_registry_def by simp
  qed
  show ?thesis unfolding wf_registry_def using ok rings by blast
qed

lemma wf_free_unbound:
  assumes wf: "wf_registry r" and e: "bound_names (thingytab r) w = {}"
  shows "wf_registry (r\<lparr>widgets := (widgets r)(w := None)\<rparr>)"
proof -
  let ?r' = "r\<lparr>widgets := (widgets r)(w := None)\<rparr>"
  have ok: "thingy_ok ?r' x xh" if x: "thingytab ?r' x = Some xh" for x xh
  proof -
    have o: "thingy_ok r x xh" using wf x unfolding wf_registry_def by simp
    have "widget xh \<noteq> Some w" if "DISABLED \<notin> flags xh"
      using e x that unfolding bound_names_def by auto
    then show ?thesis using o unfolding thingy_ok_def by auto
  qed
  have rings: "ring (thingytab ?r') w' (first wd') \<and> u_ok wd'" if "widgets ?r' w' = Some wd'" for w' wd'
  proof -
    have "widgets r w' = Some wd'" using that by (simp split: if_splits)
    then show ?thesis using wf unfolding wf_registry_def by simp
  qed
  show ?thesis unfolding wf_registry_def using ok rings by blast
qed


lemma bindwidget_protected:
  assumes "thingytab r t = Some th" "TH_IMMORTAL \<in> flags th"
  shows "bindwidget w t r =
     Some (-1, r\<lparr>thingytab := (if rc th = 1 then (thingytab r)(t := None)
                              else (thingytab r)(t \<mapsto> th\<lparr>rc := rc th - 1\<rparr>))\<rparr>)"
  using assms by (simp add: bindwidget_def unrefthingy_Some)

lemma bindwidget_same:
  assumes "thingytab r t = Some th" "TH_IMMORTAL \<notin> flags th" "DISABLED \<notin> flags th" "widget th = w"
  shows "bindwidget w t r = Some (0, r)"
  using assms by (simp add: bindwidget_def)

lemma rel_option_trans3:
  assumes "rel_option (\<lambda>a b. flags a = flags b \<and> rc a = rc b \<and> widget a = widget b) x y"
    and "rel_option (\<lambda>a b. flags a = flags b \<and> rc a = rc b \<and> widget a = widget b) y z"
  shows "rel_option (\<lambda>a b. flags a = flags b \<and> rc a = rc b \<and> widget a = widget b) x z"
  using assms by (cases x; cases y; cases z) simp_all

lemma bindwidget_wf:
  assumes wf: "wf_registry r" and t: "thingytab r t = Some th"
    and held: "DISABLED \<notin> flags th \<longrightarrow> 2 \<le> rc th" and w: "widgets r w = Some wd"
  obtains (protected) "TH_IMMORTAL \<in> flags th"
      "bindwidget (Some w) t r = Some (-1, r\<lparr>thingytab := (thingytab r)(t \<mapsto> th\<lparr>rc := rc th - 1\<rparr>)\<rparr>)"
      "wf_registry (r\<lparr>thingytab := (thingytab r)(t \<mapsto> th\<lparr>rc := rc th - 1\<rparr>)\<rparr>)"
    | (same) "TH_IMMORTAL \<notin> flags th" "DISABLED \<notin> flags th" "widget th = Some w"
      "bindwidget (Some w) t r = Some (0, r)"
    | (bound) r' where "TH_IMMORTAL \<notin> flags th" "DISABLED \<in> flags th \<or> widget th \<noteq> Some w"
      "bindwidget (Some w) t r = Some (0, r')" "bind_effect r t th w r'" "wf_registry r'"
proof -
  have tok: "thingy_ok r t th" using wf t unfolding wf_registry_def by blast
  show thesis
  proof (cases "TH_IMMORTAL \<in> flags th")
    case True
    then have "DISABLED \<notin> flags th" using tok unfolding thingy_ok_def by simp
    then have rc: "2 \<le> rc th" using held by simp
    then have "bindwidget (Some w) t r =
        Some (-1, r\<lparr>thingytab := (thingytab r)(t \<mapsto> th\<lparr>rc := rc th - 1\<rparr>)\<rparr>)"
      using bindwidget_protected [OF t True, of "Some w"] by simp
    then show ?thesis using protected True wf_unref [OF wf t rc] by blast
  next
    case imm: False
    show ?thesis
    proof (cases "DISABLED \<in> flags th")
      case True
      from bindwidget_splice_wf [OF wf t True w] obtain r' where
        r': "bindwidget_splice (Some w) t r = Some r'" "bind_effect r t th w r'" "wf_registry r'"
        by blast
      have "bindwidget (Some w) t r = Some (0, r')"
        using t imm True r'(1) by (simp add: bindwidget_def)
      then show ?thesis using bound imm True r'(2,3) by blast
    next
      case en: False
      show ?thesis
      proof (cases "widget th = Some w")
        case True
        then show ?thesis using same imm en bindwidget_same [OF t imm en True] by blast
      next
        case ne: False
        have ov1: "(1::int) \<noteq> 0 \<or> TH_IMMORTAL \<notin> flags th" by simp
        from unbindwidget_enabled [OF wf t en ov1] obtain r1 w0 wd0 where
          u: "unbindwidget t 1 r = Some (0, r1)" "widget th = Some w0" "widgets r w0 = Some wd0"
            "unbind_effect r t th w0 wd0 r1" "wf_registry r1"
            "samew th = Some t \<longleftrightarrow> bound_names (thingytab r) w0 = {t}"
          by blast
        have w0: "w \<noteq> w0" using ne u(2) by auto
        have rc: "rc th \<noteq> 1" using held en by simp
        let ?th1 = "disabled_thingy th"
        have t1: "thingytab r1 t = Some ?th1" using unbind_effect_self [OF u(4)] rc by simp
        have dis1: "DISABLED \<in> flags ?th1" by (simp add: disabled_thingy_def)
        have w1: "widgets r1 w = Some wd" using unbind_effect_widgets [OF u(4) w0] w by simp
        from bindwidget_splice_wf [OF u(5) t1 dis1 w1] obtain r' where
          r': "bindwidget_splice (Some w) t r1 = Some r'" "bind_effect r1 t ?th1 w r'" "wf_registry r'"
          by blast
        have res: "bindwidget (Some w) t r = Some (0, r')"
          using t imm en ne u(1) r'(1) by (simp add: bindwidget_def)
        have e1: "\<exists>sw. thingytab r' t =
            Some (th\<lparr>samew := sw, widget := Some w, flags := flags th - {DISABLED},
                     rc := (if DISABLED \<in> flags th then rc th else rc th - 1)\<rparr>)"
        proof -
          from bind_effect_self [OF r'(2)] obtain sw where
            "thingytab r' t = Some (?th1\<lparr>samew := sw, widget := Some w,
               flags := flags ?th1 - {DISABLED},
               rc := (if DISABLED \<in> flags ?th1 then rc ?th1 else rc ?th1 - 1)\<rparr>)" by blast
          moreover have "insert DISABLED (flags th - {TH_IMMORTAL}) - {DISABLED} = flags th - {DISABLED}"
            using imm by auto
          ultimately have "thingytab r' t = Some (th\<lparr>samew := sw, widget := Some w,
               flags := flags th - {DISABLED}, rc := rc th - 1\<rparr>)"
            by (simp add: disabled_thingy_def)
          then show ?thesis using en by auto
        qed
        have e2: "\<forall>x. x \<noteq> t \<longrightarrow>
            rel_option (\<lambda>a b. flags a = flags b \<and> rc a = rc b \<and> widget a = widget b)
              (thingytab r x) (thingytab r' x)"
          using rel_option_trans3 [OF unbind_effect_other [OF u(4)] bind_effect_other [OF r'(2)]]
          by blast
        have e3: "\<exists>wd f. widgets r w = Some wd \<and> widgets r' w = Some (wd\<lparr>first := Some f\<rparr>)"
          using bind_effect_live [OF r'(2)] w w1 by simp
        have e4: "rel_option (\<lambda>a b. wflags a = wflags b \<and> u a = u b) (widgets r w') (widgets r' w') \<or>
            (widgets r' w' = None \<and> bound_names (thingytab r) w' = {t})" if ne': "w' \<noteq> w" for w'
        proof -
          have "t \<notin> bound_names (thingytab r1) w'" using t1 dis1 by (simp add: bound_names_def)
          then have s: "rel_option (\<lambda>a b. wflags a = wflags b \<and> u a = u b) (widgets r1 w') (widgets r' w')"
            using bind_effect_widgets [OF r'(2) ne'] by auto
          show ?thesis
          proof (cases "w' = w0")
            case False
            then show ?thesis using s unbind_effect_widgets [OF u(4) False] by simp
          next
            case True
            show ?thesis
            proof (cases "samew th = Some t")
              case sole: True
              then have "widgets r1 w0 = None" using u(4) unfolding unbind_effect_def by simp
              then have "widgets r' w0 = None" using s True by (cases "widgets r' w0") simp_all
              then show ?thesis using sole u(6) True by simp
            next
              case False
              then obtain p where "widgets r1 w0 = Some (wd0\<lparr>first := Some p\<rparr>)"
                using u(4) unfolding unbind_effect_def by auto
              then show ?thesis using s u(3) True by (cases "widgets r' w0") simp_all
            qed
          qed
        qed
        have e4': "\<forall>w'. w' \<noteq> w \<longrightarrow>
            rel_option (\<lambda>a b. wflags a = wflags b \<and> u a = u b) (widgets r w') (widgets r' w') \<or>
            (widgets r' w' = None \<and> bound_names (thingytab r) w' = {t})"
          using e4 by blast
        have "bind_effect r t th w r'"
          unfolding bind_effect_def using e1 e2 e3 e4' by (intro conjI)
        then show ?thesis using bound imm ne res r'(3) by blast
      qed
    qed
  qed
qed

section \<open>Binding an immortal name\<close>

text \<open>
  Claim C2. When the thingy has the \<^verbatim>\<open>TH_IMMORTAL\<close> flag, \<^verbatim>\<open>bindwidget\<close> returns \<open>-1\<close>
  (protected) and its whole effect is one \<^verbatim>\<open>unrefthingy\<close> of the thingy: the widgets, the
  strings and every other record of the table are as before, and the record of the thingy
  has its reference count decremented once, with flags, widget pointer and \<^verbatim>\<open>samew\<close> link
  as before (when the count reaches zero the release destroys the record).
\<close>

theorem bindwidget_immortal:
  assumes "thingytab r t = Some th" and "TH_IMMORTAL \<in> flags th"
  shows "\<exists>r'. bindwidget w t r = Some (-1, r') \<and> unrefthingy (Some t) r = Some r' \<and>
           widgets r' = widgets r \<and> strings r' = strings r \<and>
           (\<forall>x. x \<noteq> t \<longrightarrow> thingytab r' x = thingytab r x) \<and>
           thingytab r' t = (if rc th = 1 then None else Some (th\<lparr>rc := rc th - 1\<rparr>))"
proof -
  let ?r' = "r\<lparr>thingytab := (if rc th = 1 then (thingytab r)(t := None)
                              else (thingytab r)(t \<mapsto> th\<lparr>rc := rc th - 1\<rparr>))\<rparr>"
  have "bindwidget w t r = Some (-1, ?r')" by (rule bindwidget_protected [OF assms])
  moreover have "unrefthingy (Some t) r = Some ?r'" by (rule unrefthingy_Some [OF assms(1)])
  ultimately show ?thesis by simp
qed

theorem bindwidget_immortal_witness:
  "thingytab held_registry ''.foo'' =
     Some \<lparr>flags = {TH_IMMORTAL}, rc = 2, widget = Some 0, samew = Some ''foo''\<rparr> \<and>
   (\<exists>r'. bindwidget (Some 1) ''.foo'' held_registry = Some (-1, r') \<and>
      thingytab r' ''.foo'' =
        Some \<lparr>flags = {TH_IMMORTAL}, rc = 1, widget = Some 0, samew = Some ''foo''\<rparr> \<and>
      thingytab r' ''foo'' = thingytab held_registry ''foo'' \<and>
      widgets r' = widgets held_registry)"
proof -
  have a: "thingytab held_registry ''.foo'' =
     Some \<lparr>flags = {TH_IMMORTAL}, rc = 2, widget = Some 0, samew = Some ''foo''\<rparr>"
    by (simp add: held_registry_def)
  have b: "TH_IMMORTAL \<in> flags \<lparr>flags = {TH_IMMORTAL}, rc = 2, widget = Some 0, samew = Some ''foo''\<rparr>"
    by simp
  from bindwidget_immortal [OF a b, of "Some 1"] show ?thesis using a by auto
qed

section \<open>The operations keep the registry well-formed\<close>


lemma reg_zwarnnam [simp]: "reg (zwarnnam cmd fmt str num s) = reg s"
  by (simp add: zwarnnam_def)

lemma unbindwidget_disabled:
  "thingytab r t = Some th \<Longrightarrow> DISABLED \<in> flags th \<Longrightarrow> unbindwidget t ov r = Some (0, r)"
  by (simp add: unbindwidget_def)

lemma unbindwidget_protected:
  "thingytab r t = Some th \<Longrightarrow> DISABLED \<notin> flags th \<Longrightarrow> TH_IMMORTAL \<in> flags th \<Longrightarrow>
   unbindwidget t 0 r = Some (-1, r)"
  by (simp add: unbindwidget_def)

lemma unbindwidget_total:
  assumes wf: "wf_registry r" and t: "thingytab r t = Some th"
  shows "\<exists>rv r'. unbindwidget t ov r = Some (rv, r') \<and> wf_registry r'"
proof (cases "DISABLED \<in> flags th")
  case True
  then show ?thesis using unbindwidget_disabled [OF t True] wf by blast
next
  case en: False
  show ?thesis
  proof (cases "ov = 0 \<and> TH_IMMORTAL \<in> flags th")
    case True
    then show ?thesis using unbindwidget_protected [OF t en] wf by blast
  next
    case False
    then have ov: "ov \<noteq> 0 \<or> TH_IMMORTAL \<notin> flags th" by blast
    from unbindwidget_enabled [OF wf t en ov] show ?thesis by blast
  qed
qed

lemma rthingy_wf:
  assumes wf: "wf_registry r"
  obtains r' th' where "rthingy nam r = Some (nam, r')" "wf_registry r'"
    "thingytab r' nam = Some th'" "DISABLED \<notin> flags th' \<longrightarrow> 2 \<le> rc th'"
    "widgets r' = widgets r" "strings r' = strings r"
    "\<And>x. x \<noteq> nam \<Longrightarrow> thingytab r' x = thingytab r x"
    "th' = (case thingytab r nam of None \<Rightarrow> makethingynode\<lparr>rc := 1\<rparr>
            | Some th \<Rightarrow> th\<lparr>rc := rc th + 1\<rparr>)"
proof -
  let ?th' = "case thingytab r nam of None \<Rightarrow> makethingynode\<lparr>rc := 1\<rparr>
            | Some th \<Rightarrow> th\<lparr>rc := rc th + 1\<rparr>"
  let ?r' = "r\<lparr>thingytab := (thingytab r)(nam \<mapsto> ?th')\<rparr>"
  have rc: "1 \<le> rc xh" if "thingytab r nam = Some xh" for xh
    using wf that unfolding wf_registry_def thingy_ok_def by blast
  have "DISABLED \<notin> flags ?th' \<longrightarrow> 2 \<le> rc ?th'"
    using rc by (cases "thingytab r nam") (simp_all add: makethingynode_def)
  then show ?thesis
    using that [of ?r' ?th'] rthingy_eq [of nam r] wf_rthingy [OF wf, of nam] by simp
qed

lemma bin_zle_new_wf:
  assumes wf: "wf_registry (reg s)" and fresh: "widgets (reg s) wa = None"
  shows "\<exists>rv s'. bin_zle_new wa sa name (a0 # rest) ops func s = Some (rv, s') \<and> wf_registry (reg s')"
proof -
  let ?wd = "\<lparr>wflags = {}, first = None, u = U_fnnam sa\<rparr>"
  let ?r0 = "zalloc_widget wa ?wd (reg s)"
  let ?r1 = "ztrdup sa (case rest of [] \<Rightarrow> a0 | a1 # _ \<Rightarrow> a1) ?r0"
  have u: "u_ok ?wd" by (simp add: u_ok_def)
  have "wf_registry ?r0" by (rule wf_zalloc_widget [OF wf fresh u]) simp
  then have wf1: "wf_registry ?r1" by (simp add: ztrdup_def)
  have w1: "widgets ?r1 wa = Some ?wd" by (simp add: ztrdup_def zalloc_widget_def)
  from rthingy_wf [OF wf1, of a0] obtain r2 th2 where
    r2: "rthingy a0 ?r1 = Some (a0, r2)" "wf_registry r2" "thingytab r2 a0 = Some th2"
      "DISABLED \<notin> flags th2 \<longrightarrow> 2 \<le> rc th2" "widgets r2 = widgets ?r1"
    by blast
  have w2: "widgets r2 wa = Some ?wd" using r2(5) w1 by simp
  from bindwidget_wf [OF r2(2,3,4) w2] show ?thesis
  proof cases
    case 1
    let ?r3 = "r2\<lparr>thingytab := (thingytab r2)(a0 \<mapsto> th2\<lparr>rc := rc th2 - 1\<rparr>)\<rparr>"
    have w3: "widgets ?r3 wa = Some ?wd" using w2 by simp
    have "ring (thingytab ?r3) wa (first ?wd)"
      using 1(3) w3 unfolding wf_registry_def by blast
    then have e: "bound_names (thingytab ?r3) wa = {}" by (simp add: ring_def)
    have f: "freewidget wa ?r3 =
       Some (?r3\<lparr>widgets := (widgets ?r3)(wa := None), strings := strings ?r3 |` (- owned_strings ?wd)\<rparr>)"
      by (rule freewidget_eq [OF w3 u])
    have "wf_registry (?r3\<lparr>widgets := (widgets ?r3)(wa := None)\<rparr>)"
      by (rule wf_free_unbound [OF 1(3) e])
    then show ?thesis using r2(1) 1(2) f
      by (simp add: bin_zle_new_def)
  next
    case 2
    then show ?thesis using r2(1,2) by (simp add: bin_zle_new_def)
  next
    case (3 r')
    then show ?thesis using r2(1) by (simp add: bin_zle_new_def)
  qed
qed

lemma bin_zle_link_wf:
  assumes wf: "wf_registry (reg s)"
  shows "\<exists>rv s'. bin_zle_link name (a0 # a1 # rest) ops func s = Some (rv, s') \<and> wf_registry (reg s')"
proof (cases "getnode (reg s) a0")
  case None
  then show ?thesis using wf by (simp add: bin_zle_link_def)
next
  case (Some th)
  then have th: "thingytab (reg s) a0 = Some th" "DISABLED \<notin> flags th"
    by (auto simp: getnode_def split: option.splits if_splits)
  have "thingy_ok (reg s) a0 th" using wf th(1) unfolding wf_registry_def by blast
  then obtain w wd where w: "widget th = Some w" "widgets (reg s) w = Some wd"
    using th(2) unfolding thingy_ok_def by auto
  from rthingy_wf [OF wf, of a1] obtain r1 th1 where
    r1: "rthingy a1 (reg s) = Some (a1, r1)" "wf_registry r1" "thingytab r1 a1 = Some th1"
      "DISABLED \<notin> flags th1 \<longrightarrow> 2 \<le> rc th1" "widgets r1 = widgets (reg s)"
    by blast
  have w1: "widgets r1 w = Some wd" using r1(5) w(2) by simp
  from bindwidget_wf [OF r1(2,3,4) w1] show ?thesis
  proof cases
    case 1
    then show ?thesis using Some r1(1) w(1) by (simp add: bin_zle_link_def)
  next
    case 2
    then show ?thesis using Some r1(1,2) w(1) by (simp add: bin_zle_link_def)
  next
    case (3 r')
    then show ?thesis using Some r1(1) w(1) by (simp add: bin_zle_link_def)
  qed
qed

lemma bin_zle_del_loop_wf:
  assumes "wf_registry (reg s)" "args \<noteq> []"
  shows "\<exists>rv s'. bin_zle_del_loop name args ret s = Some (rv, s') \<and> wf_registry (reg s')"
  using assms
proof (induction args arbitrary: ret s)
  case Nil
  then show ?case by simp
next
  case (Cons a args)
  have step: "\<exists>ret' s'.
     (case getnode (reg s) a of
        None \<Rightarrow> Some (1, zwarnnam name fmt_no_such_widget (Some a) 0 s)
      | Some _ \<Rightarrow>
          (case unbindwidget a 0 (reg s) of
             None \<Rightarrow> None
           | Some (rv, r') \<Rightarrow>
               if rv \<noteq> 0
               then Some (1, zwarnnam name fmt_protected (Some a) 0 (s\<lparr>reg := r'\<rparr>))
               else Some (ret, s\<lparr>reg := r'\<rparr>))) = Some (ret', s') \<and> wf_registry (reg s')"
  proof (cases "getnode (reg s) a")
    case None
    then show ?thesis using Cons.prems(1) by (simp add: zwarnnam_def)
  next
    case (Some th)
    then have "thingytab (reg s) a = Some th"
      by (auto simp: getnode_def split: option.splits if_splits)
    from unbindwidget_total [OF Cons.prems(1) this, of 0] obtain rv r' where
      "unbindwidget a 0 (reg s) = Some (rv, r')" "wf_registry r'" by blast
    then show ?thesis using Some by (simp add: zwarnnam_def)
  qed
  then obtain ret' s' where s': "(case getnode (reg s) a of
        None \<Rightarrow> Some (1, zwarnnam name fmt_no_such_widget (Some a) 0 s)
      | Some _ \<Rightarrow>
          (case unbindwidget a 0 (reg s) of
             None \<Rightarrow> None
           | Some (rv, r') \<Rightarrow>
               if rv \<noteq> 0
               then Some (1, zwarnnam name fmt_protected (Some a) 0 (s\<lparr>reg := r'\<rparr>))
               else Some (ret, s\<lparr>reg := r'\<rparr>))) = Some (ret', s')" "wf_registry (reg s')"
    by blast
  show ?case
  proof (cases "args = []")
    case True
    then show ?thesis using s' by simp
  next
    case False
    from Cons.IH [OF s'(2) False, of ret'] show ?thesis using s'(1) False by simp
  qed
qed


lemma wf_set_immortal:
  assumes wf: "wf_registry r" and t: "thingytab r t = Some th" and en: "DISABLED \<notin> flags th"
    and d: "dotted t"
  shows "wf_registry (r\<lparr>thingytab := (thingytab r)(t \<mapsto> th\<lparr>flags := insert TH_IMMORTAL (flags th)\<rparr>)\<rparr>)"
proof -
  let ?tt' = "(thingytab r)(t \<mapsto> th\<lparr>flags := insert TH_IMMORTAL (flags th)\<rparr>)"
  let ?r' = "r\<lparr>thingytab := ?tt'\<rparr>"
  have bn: "bound_names ?tt' w = bound_names (thingytab r) w" for w
  proof (rule set_eqI)
    fix x
    show "x \<in> bound_names ?tt' w \<longleftrightarrow> x \<in> bound_names (thingytab r) w"
      using t by (cases "x = t") (simp_all add: bound_names_def)
  qed
  have nx: "nxt ?tt' x = nxt (thingytab r) x" for x
    using t by (cases "x = t") (simp_all add: nxt_def)
  have ok: "thingy_ok ?r' x xh" if x: "thingytab ?r' x = Some xh" for x xh
  proof (cases "x = t")
    case True
    have "thingy_ok r t th" using wf t unfolding wf_registry_def by blast
    moreover have "xh = th\<lparr>flags := insert TH_IMMORTAL (flags th)\<rparr>" using x True by simp
    ultimately show ?thesis using en d True unfolding thingy_ok_def by simp
  next
    case False
    then have "thingy_ok r x xh" using wf x unfolding wf_registry_def by simp
    then show ?thesis unfolding thingy_ok_def by simp
  qed
  have rings: "ring (thingytab ?r') w (first wd) \<and> u_ok wd" if "widgets ?r' w = Some wd" for w wd
  proof -
    have rg: "ring (thingytab r) w (first wd)" and u: "u_ok wd"
      using wf that unfolding wf_registry_def by simp_all
    have "ring ?tt' w (first wd)" by (rule ring_frame [OF rg bn nx])
    then show ?thesis using u by simp
  qed
  show ?thesis unfolding wf_registry_def using ok rings by blast
qed

lemma bound_names_rthingy:
  "bound_names ((tt)(nam \<mapsto> (case tt nam of None \<Rightarrow> makethingynode\<lparr>rc := 1\<rparr>
              | Some th \<Rightarrow> th\<lparr>rc := rc th + 1\<rparr>))) w = bound_names tt w"
proof (rule set_eqI)
  fix x
  show "x \<in> bound_names ((tt)(nam \<mapsto> (case tt nam of None \<Rightarrow> makethingynode\<lparr>rc := 1\<rparr>
              | Some th \<Rightarrow> th\<lparr>rc := rc th + 1\<rparr>))) w \<longleftrightarrow> x \<in> bound_names tt w"
    by (cases "x = nam"; cases "tt nam") (simp_all add: bound_names_def makethingynode_def)
qed

lemma rel_rthingy:
  "rel_option (\<lambda>a b. flags a = flags b \<and> rc a = rc b \<and> widget a = widget b) (tt x)
     (((tt)(nam \<mapsto> th')) x)" if "x \<noteq> nam"
  using that by (simp add: rel_option_same)


lemma addzlefunction_rejected_dot:
  "dotted name \<Longrightarrow> addzlefunction wa name ifunc fl r = Some (None, r)"
  by (simp add: addzlefunction_def)

lemma addzlefunction_rejected_immortal:
  "thingytab r (CHR ''.'' # name) = Some th \<Longrightarrow> TH_IMMORTAL \<in> flags th \<Longrightarrow> DISABLED \<notin> flags th \<Longrightarrow>
   addzlefunction wa name ifunc fl r = Some (None, r)"
  by (simp add: addzlefunction_def getnode_def)

lemma addzlefunction_wf:
  assumes wf: "wf_registry r" and fresh: "widgets r wa = None" and nc: "WIDGET_NCOMP \<notin> fl"
    and nd: "\<not> dotted name"
    and ni: "\<forall>th. thingytab r (CHR ''.'' # name) = Some th \<longrightarrow> TH_IMMORTAL \<notin> flags th"
  obtains r' dth nth wd' where
    "addzlefunction wa name ifunc fl r = Some (Some wa, r')" "wf_registry r'"
    "bound_names (thingytab r') wa = {CHR ''.'' # name, name}"
    "thingytab r' (CHR ''.'' # name) = Some dth" "TH_IMMORTAL \<in> flags dth" "DISABLED \<notin> flags dth"
    "widget dth = Some wa"
    "thingytab r' name = Some nth" "TH_IMMORTAL \<notin> flags nth" "DISABLED \<notin> flags nth"
    "widget nth = Some wa"
    "widgets r' wa = Some wd'" "wflags wd' = insert WIDGET_INT fl" "u wd' = U_fn ifunc"
    "\<forall>x. x \<noteq> CHR ''.'' # name \<and> x \<noteq> name \<longrightarrow>
       rel_option (\<lambda>a b. flags a = flags b \<and> rc a = rc b \<and> widget a = widget b)
         (thingytab r x) (thingytab r' x)"
proof -
  let ?dotn = "CHR ''.'' # name"
  let ?wd = "\<lparr>wflags = insert WIDGET_INT fl, first = None, u = U_fn ifunc\<rparr>"
  let ?r1 = "zalloc_widget wa ?wd r"
  have ne: "name \<noteq> ?dotn" by simp
  have u: "u_ok ?wd" using nc by (simp add: u_ok_def)
  have wf1: "wf_registry ?r1" by (rule wf_zalloc_widget [OF wf fresh u]) simp
  have tt1: "thingytab ?r1 = thingytab r" and w1: "widgets ?r1 wa = Some ?wd"
    by (simp_all add: zalloc_widget_def)
  have b1: "bound_names (thingytab ?r1) wa = {}" using unbound_of_dead [OF wf fresh] tt1 by simp
  text \<open>The dotted name.\<close>
  from rthingy_wf [OF wf1, of ?dotn] obtain r2 th2 where
    r2: "rthingy ?dotn ?r1 = Some (?dotn, r2)" "wf_registry r2" "thingytab r2 ?dotn = Some th2"
      "DISABLED \<notin> flags th2 \<longrightarrow> 2 \<le> rc th2" "widgets r2 = widgets ?r1"
      "\<And>x. x \<noteq> ?dotn \<Longrightarrow> thingytab r2 x = thingytab ?r1 x"
      "th2 = (case thingytab ?r1 ?dotn of None \<Rightarrow> makethingynode\<lparr>rc := 1\<rparr>
            | Some th \<Rightarrow> th\<lparr>rc := rc th + 1\<rparr>)"
    by blast
  have tt2: "thingytab r2 = (thingytab r)(?dotn \<mapsto> th2)"
  proof
    fix x show "thingytab r2 x = ((thingytab r)(?dotn \<mapsto> th2)) x"
      using r2(3) r2(6) [of x] tt1 by (cases "x = ?dotn") simp_all
  qed
  have b2: "bound_names (thingytab r2) wa = {}"
    using bound_names_rthingy [of "thingytab r" ?dotn wa] b1 tt1 r2(7) tt2 by simp
  have imm2: "TH_IMMORTAL \<notin> flags th2"
    using ni r2(7) tt1 by (cases "thingytab r ?dotn") (simp_all add: makethingynode_def)
  have w2: "widgets r2 wa = Some ?wd" using r2(5) w1 by simp
  have nb2: "?dotn \<notin> bound_names (thingytab r2) wa" using b2 by simp
  from bindwidget_wf [OF r2(2,3,4) w2] obtain r3 where
    r3: "bindwidget (Some wa) ?dotn r2 = Some (0, r3)" "bind_effect r2 ?dotn th2 wa r3" "wf_registry r3"
  proof cases
    case 1 then show ?thesis using imm2 by simp
  next
    case 2 then show ?thesis using nb2 r2(3) by (simp add: bound_names_def)
  next
    case (3 r') then show ?thesis using that by blast
  qed
  from bind_effect_self [OF r3(2)] obtain sw3 where
    t3: "thingytab r3 ?dotn = Some (th2\<lparr>samew := sw3, widget := Some wa, flags := flags th2 - {DISABLED},
                 rc := (if DISABLED \<in> flags th2 then rc th2 else rc th2 - 1)\<rparr>)" by blast
  let ?th3 = "th2\<lparr>samew := sw3, widget := Some wa, flags := flags th2 - {DISABLED},
                 rc := (if DISABLED \<in> flags th2 then rc th2 else rc th2 - 1)\<rparr>"
  have b3: "bound_names (thingytab r3) wa = {?dotn}" using bind_effect_bound [OF r3(2), of wa] b2 by simp
  let ?th4 = "?th3\<lparr>flags := insert TH_IMMORTAL (flags ?th3)\<rparr>"
  let ?r4 = "r3\<lparr>thingytab := (thingytab r3)(?dotn \<mapsto> ?th4)\<rparr>"
  have r4: "upd_thingy ?dotn (\<lambda>x. x\<lparr>flags := insert TH_IMMORTAL (flags x)\<rparr>) r3 = Some ?r4"
    using upd_thingy_Some [OF t3] by simp
  have wf4: "wf_registry ?r4" by (rule wf_set_immortal [OF r3(3) t3]) (simp_all add: dotted_def)
  have "bound_names (thingytab ?r4) wa = bound_names (thingytab r3) wa"
  proof (rule set_eqI)
    fix x show "x \<in> bound_names (thingytab ?r4) wa \<longleftrightarrow> x \<in> bound_names (thingytab r3) wa"
      using t3 by (cases "x = ?dotn") (simp_all add: bound_names_def)
  qed
  then have b4: "bound_names (thingytab ?r4) wa = {?dotn}" using b3 by simp
  obtain wd3 where w3: "widgets r3 wa = Some wd3" "wflags wd3 = insert WIDGET_INT fl" "u wd3 = U_fn ifunc"
    using bind_effect_live [OF r3(2)] w2 by auto
  text \<open>The plain name.\<close>
  from rthingy_wf [OF wf4, of name] obtain r5 th5 where
    r5: "rthingy name ?r4 = Some (name, r5)" "wf_registry r5" "thingytab r5 name = Some th5"
      "DISABLED \<notin> flags th5 \<longrightarrow> 2 \<le> rc th5" "widgets r5 = widgets ?r4"
      "\<And>x. x \<noteq> name \<Longrightarrow> thingytab r5 x = thingytab ?r4 x"
      "th5 = (case thingytab ?r4 name of None \<Rightarrow> makethingynode\<lparr>rc := 1\<rparr>
            | Some th \<Rightarrow> th\<lparr>rc := rc th + 1\<rparr>)"
    by blast
  have tt5: "thingytab r5 = (thingytab ?r4)(name \<mapsto> th5)"
  proof
    fix x show "thingytab r5 x = ((thingytab ?r4)(name \<mapsto> th5)) x"
      using r5(3) r5(6) [of x] by (cases "x = name") simp_all
  qed
  have b5: "bound_names (thingytab r5) wa = {?dotn}"
    using bound_names_rthingy [of "thingytab ?r4" name wa] b4 r5(7) tt5 by simp
  have "thingy_ok r5 name th5" using r5(2,3) unfolding wf_registry_def by blast
  then have imm5: "TH_IMMORTAL \<notin> flags th5" using nd unfolding thingy_ok_def by auto
  have w5: "widgets r5 wa = Some wd3" using r5(5) w3(1) by simp
  have nb5: "name \<notin> bound_names (thingytab r5) wa" using b5 by simp
  from bindwidget_wf [OF r5(2,3,4) w5] obtain r6 where
    r6: "bindwidget (Some wa) name r5 = Some (0, r6)" "bind_effect r5 name th5 wa r6" "wf_registry r6"
  proof cases
    case 1 then show ?thesis using imm5 by simp
  next
    case 2 then show ?thesis using nb5 r5(3) by (simp add: bound_names_def)
  next
    case (3 r') then show ?thesis using that by blast
  qed
  have res: "addzlefunction wa name ifunc fl r = Some (Some wa, r6)"
  proof -
    have "\<not> (case getnode r ?dotn of None \<Rightarrow> False | Some th \<Rightarrow> TH_IMMORTAL \<in> flags th)"
      using ni by (auto simp: getnode_def split: option.splits)
    then show ?thesis using nd r2(1) r3(1) r4 r5(1) r6(1)
      by (simp add: addzlefunction_def Let_def)
  qed
  have b6: "bound_names (thingytab r6) wa = {?dotn, name}"
    using bind_effect_bound [OF r6(2), of wa] b5 by auto
  from bind_effect_self [OF r6(2)] obtain sw6 where
    t6: "thingytab r6 name = Some (th5\<lparr>samew := sw6, widget := Some wa, flags := flags th5 - {DISABLED},
                 rc := (if DISABLED \<in> flags th5 then rc th5 else rc th5 - 1)\<rparr>)" by blast
  have d5: "thingytab r5 ?dotn = Some ?th4" using r5(6) [of ?dotn] by simp
  have "rel_option (\<lambda>a b. flags a = flags b \<and> rc a = rc b \<and> widget a = widget b)
         (thingytab r5 ?dotn) (thingytab r6 ?dotn)"
    by (rule bind_effect_other [OF r6(2)]) simp
  then obtain dth where d6: "thingytab r6 ?dotn = Some dth" "flags dth = flags ?th4" "widget dth = widget ?th4"
    using d5 by (cases "thingytab r6 ?dotn") simp_all
  obtain wd6 where w6: "widgets r6 wa = Some wd6" "wflags wd6 = insert WIDGET_INT fl" "u wd6 = U_fn ifunc"
    using bind_effect_live [OF r6(2)] w5 w3 by auto
  have others: "rel_option (\<lambda>a b. flags a = flags b \<and> rc a = rc b \<and> widget a = widget b)
         (thingytab r x) (thingytab r6 x)" if x: "x \<noteq> ?dotn" "x \<noteq> name" for x
  proof -
    have a: "thingytab r2 x = thingytab r x" using r2(6) [OF x(1)] tt1 by simp
    have b: "rel_option (\<lambda>a b. flags a = flags b \<and> rc a = rc b \<and> widget a = widget b)
         (thingytab r2 x) (thingytab r3 x)" by (rule bind_effect_other [OF r3(2) x(1)])
    have c: "thingytab r5 x = thingytab r3 x" using r5(6) [OF x(2)] x(1) by simp
    have d: "rel_option (\<lambda>a b. flags a = flags b \<and> rc a = rc b \<and> widget a = widget b)
         (thingytab r5 x) (thingytab r6 x)" by (rule bind_effect_other [OF r6(2) x(2)])
    show ?thesis using rel_option_trans3 [OF b [unfolded a] d [unfolded c]] .
  qed
  have others': "\<forall>x. x \<noteq> ?dotn \<and> x \<noteq> name \<longrightarrow>
       rel_option (\<lambda>a b. flags a = flags b \<and> rc a = rc b \<and> widget a = widget b)
         (thingytab r x) (thingytab r6 x)"
    using others by blast
  show thesis
  proof (rule that [OF res r6(3) b6 d6(1) _ _ _ t6 _ _ _ w6 others'])
    show "TH_IMMORTAL \<in> flags dth" using d6(2) by simp
    show "DISABLED \<notin> flags dth" using d6(2) by simp
    show "widget dth = Some wa" using d6(3) by simp
    show "TH_IMMORTAL \<notin> flags (th5\<lparr>samew := sw6, widget := Some wa, flags := flags th5 - {DISABLED},
                 rc := (if DISABLED \<in> flags th5 then rc th5 else rc th5 - 1)\<rparr>)" using imm5 by simp
  qed simp_all
qed






lemma deletezle_loop_aux:
  "wf_registry r \<Longrightarrow> thingytab r p = Some pth \<Longrightarrow> DISABLED \<notin> flags pth \<Longrightarrow> widget pth = Some w \<Longrightarrow>
   card (bound_names (thingytab r) w) = k \<Longrightarrow>
   \<exists>r'. deletezle_loop p r = Some r' \<and> wf_registry r'"
proof (induction k arbitrary: r p pth)
  case 0
  have "p \<in> bound_names (thingytab r) w" using "0.prems"(2-4) by (simp add: bound_names_def)
  moreover have "finite (bound_names (thingytab r) w)"
  proof (rule wf_ring_of_enabled [OF "0.prems"(1-3)])
    fix w' wd ys
    assume "widget pth = Some w'" "set (p # ys) = bound_names (thingytab r) w'"
    then have "bound_names (thingytab r) w = set (p # ys)" using "0.prems"(4) by simp
    then show ?thesis by (simp only: List.finite_set)
  qed
  ultimately have "card (bound_names (thingytab r) w) \<noteq> 0" by (auto simp: card_eq_0_iff)
  then show ?case using "0.prems"(5) by simp
next
  case (Suc k)
  note wf = Suc.prems(1) and p = Suc.prems(2) and en = Suc.prems(3) and w = Suc.prems(4)
  obtain w' wd ys where
    c0: "widget pth = Some w'" "samew_cycle (thingytab r) (p # ys)"
      "set (p # ys) = bound_names (thingytab r) w'"
    by (rule wf_ring_of_enabled [OF wf p en])
  then have c: "samew_cycle (thingytab r) (p # ys)" and s: "set (p # ys) = bound_names (thingytab r) w"
    using w by simp_all
  have np: "nxt (thingytab r) p = samew pth" by (simp add: nxt_def p)
  have ov1: "(1::int) \<noteq> 0 \<or> TH_IMMORTAL \<notin> flags pth" by simp
  obtain r1 w0 wd0 where
    u: "unbindwidget p 1 r = Some (0, r1)" "widget pth = Some w0" "unbind_effect r p pth w0 wd0 r1"
      "wf_registry r1"
    by (rule unbindwidget_enabled [OF wf p en ov1])
  have w0: "w0 = w" using u(2) w by simp
  show ?case
  proof (cases "ys = []")
    case True
    then have "samew pth = Some p" using samew_cycle_single [OF c] np by simp
    then show ?thesis using p u(1,4) by (subst deletezle_loop.simps) simp
  next
    case False
    then have n: "samew pth = Some (hd ys)" using c np unfolding samew_cycle_Cons by simp
    have d: "p \<notin> set ys" "distinct ys" using c unfolding samew_cycle_Cons by simp_all
    have hp: "hd ys \<noteq> p" using False d(1) by (metis hd_in_set)
    have "bound_names (thingytab r1) w = bound_names (thingytab r) w - {p}"
      by (rule unbind_effect_bound [OF u(3)])
    also have "\<dots> = set (p # ys) - {p}" using s by simp
    also have "\<dots> = set ys" using d(1) by simp
    finally have b1: "bound_names (thingytab r1) w = set ys" .
    have "hd ys \<in> bound_names (thingytab r1) w" using b1 False by simp
    then obtain nth where nth: "thingytab r1 (hd ys) = Some nth" "DISABLED \<notin> flags nth"
        "widget nth = Some w" unfolding bound_names_def by blast
    have "card (bound_names (thingytab r) w) = Suc (card (set ys))"
      using s [symmetric] d(1) by simp
    then have "card (bound_names (thingytab r1) w) = k" using b1 Suc.prems(5) by simp
    from Suc.IH [OF u(4) nth this] obtain r' where
      "deletezle_loop (hd ys) r1 = Some r'" "wf_registry r'" by blast
    then show ?thesis using p n hp u(1) by (subst deletezle_loop.simps) simp
  qed
qed

lemma deletezlefunction_wf:
  assumes wf: "wf_registry r" and w: "widgets r w = Some wd" and f: "first wd \<noteq> None"
  shows "\<exists>r'. deletezlefunction w r = Some r' \<and> wf_registry r'"
proof -
  obtain p where p: "first wd = Some p" using f by auto
  have "ring (thingytab r) w (first wd)" using wf w unfolding wf_registry_def by blast
  then obtain ys where "set (p # ys) = bound_names (thingytab r) w" using p by (auto simp: ring_def)
  then have "p \<in> bound_names (thingytab r) w" by auto
  then obtain pth where pth: "thingytab r p = Some pth" "DISABLED \<notin> flags pth" "widget pth = Some w"
    unfolding bound_names_def by blast
  from deletezle_loop_aux [OF wf pth refl] show ?thesis using w p by (simp add: deletezlefunction_def)
qed


lemma exec_op_wf:
  assumes wf: "wf_registry (reg s)" and ok: "op_ok (reg s) x"
  shows "\<exists>s'. exec_op x s = Some s' \<and> wf_registry (reg s')"
proof (cases x)
  case (OpNew wa sa nam fn)
  then have "widgets (reg s) wa = None" using ok by simp
  from bin_zle_new_wf [OF wf this] show ?thesis unfolding OpNew exec_op.simps
    by (metis (no_types, lifting) option.simps(9) snd_conv)
next
  case (OpLink a b)
  from bin_zle_link_wf [OF wf, of zle_cmd a b "[]" no_ops "CHR ''A''"] show ?thesis
    unfolding OpLink exec_op.simps by (metis (no_types, lifting) option.simps(9) snd_conv)
next
  case (OpDel args)
  then have "args \<noteq> []" using ok by simp
  from bin_zle_del_loop_wf [OF wf this, of zle_cmd 0] show ?thesis
    unfolding OpDel exec_op.simps bin_zle_del_def
    by (metis (no_types, lifting) option.simps(9) snd_conv)
next
  case (OpAdd wa nam ifunc fl)
  then have fresh: "widgets (reg s) wa = None" and nc: "WIDGET_NCOMP \<notin> fl" using ok by simp_all
  show ?thesis
  proof (cases "dotted nam \<or> (\<exists>th. thingytab (reg s) (CHR ''.'' # nam) = Some th \<and> TH_IMMORTAL \<in> flags th)")
    case True
    then have "addzlefunction wa nam ifunc fl (reg s) = Some (None, reg s)"
    proof
      assume "dotted nam" then show ?thesis by (rule addzlefunction_rejected_dot)
    next
      assume "\<exists>th. thingytab (reg s) (CHR ''.'' # nam) = Some th \<and> TH_IMMORTAL \<in> flags th"
      then obtain th where th: "thingytab (reg s) (CHR ''.'' # nam) = Some th" "TH_IMMORTAL \<in> flags th"
        by blast
      have "thingy_ok (reg s) (CHR ''.'' # nam) th" using wf th(1) unfolding wf_registry_def by blast
      then have "DISABLED \<notin> flags th" using th(2) unfolding thingy_ok_def by simp
      then show ?thesis by (rule addzlefunction_rejected_immortal [OF th])
    qed
    then show ?thesis using wf unfolding OpAdd by simp
  next
    case False
    then have nd: "\<not> dotted nam"
      and ni: "\<forall>th. thingytab (reg s) (CHR ''.'' # nam) = Some th \<longrightarrow> TH_IMMORTAL \<notin> flags th"
      by blast+
    obtain r' where "addzlefunction wa nam ifunc fl (reg s) = Some (Some wa, r')" "wf_registry r'"
      by (rule addzlefunction_wf [OF wf fresh nc nd ni])
    then show ?thesis unfolding OpAdd by simp
  qed
next
  case (OpDelete w)
  then obtain wd where "widgets (reg s) w = Some wd" "first wd \<noteq> None"
    using ok by (cases "widgets (reg s) w") simp_all
  from deletezlefunction_wf [OF wf this] show ?thesis unfolding OpDelete by auto
next
  case (OpRef nam)
  obtain r' where "rthingy nam (reg s) = Some (nam, r')" "wf_registry r'"
    by (rule rthingy_wf [OF wf])
  then show ?thesis unfolding OpRef by simp
next
  case (OpUnbind nam ov)
  then obtain th where "thingytab (reg s) nam = Some th" using ok by auto
  from unbindwidget_total [OF wf this, of ov] show ?thesis unfolding OpUnbind by auto
qed




section \<open>The cycle invariant, unbinding and native widgets\<close>


lemma wf_registry_init: "wf_registry (init_thingies [] Map.empty)"
  by (simp add: wf_registry_def init_thingies_def)

lemma wf_initial_zle: "wf_registry (reg initial_zle)"
  by (simp add: initial_zle_def wf_registry_init)

lemmas exec_defs =
  bin_zle_new_def bin_zle_link_def bin_zle_del_def zalloc_widget_def ztrdup_def rthingy_def
  refthingy_def unrefthingy_def upd_thingy_def upd_widget_def getnode_def getnode2_def addnode_def
  removenode_def makethingynode_def bindwidget_def bindwidget_splice_def unbindwidget_def
  freewidget_def zsfree_def zfree_widget_def zwarnnam_def zle_cmd_def no_ops_def initial_zle_def
  init_thingies_def addzlefunction_def dotted_def Let_def

lemma ex1: "exec_op (OpNew 0 0 ''foo'' None) initial_zle =
  Some (initial_zle\<lparr>reg := \<lparr>thingytab = [''foo'' \<mapsto> \<lparr>flags = {}, rc = 1, widget = Some 0, samew = Some ''foo''\<rparr>],
     widgets = [0 \<mapsto> \<lparr>wflags = {}, first = Some ''foo'', u = U_fnnam 0\<rparr>],
     strings = [0 \<mapsto> ''foo'']\<rparr>\<rparr>)"
  by (simp add: exec_defs)


lemma native_registry_reached:
  "exec_op (OpAdd 0 ''foo'' 0 {}) initial_zle = Some (initial_zle\<lparr>reg := native_registry\<rparr>)"
  by (simp add: exec_defs native_registry_def fun_upd_twist)

lemma wf_native_registry: "wf_registry native_registry"
proof -
  have "wf_registry (reg initial_zle)" by (rule wf_initial_zle)
  moreover have "op_ok (reg initial_zle) (OpAdd 0 ''foo'' 0 {})"
    by (simp add: initial_zle_def init_thingies_def)
  ultimately have "\<exists>s'. exec_op (OpAdd 0 ''foo'' 0 {}) initial_zle = Some s' \<and> wf_registry (reg s')"
    by (rule exec_op_wf)
  then show ?thesis unfolding native_registry_reached by simp
qed




text \<open>
  Claim C3. \<^verbatim>\<open>unbindwidget\<close> on a thingy of the table: when the thingy is disabled the
  result is 0 and nothing changes; when it is enabled and immortal and \<^verbatim>\<open>override\<close> is 0
  the result is \<open>-1\<close> and nothing changes; otherwise, in a well-formed registry, the
  result is 0, the thingy leaves the names bound to its widget, the widget is freed
  together with the strings it owns exactly when the thingy was its only name (else the
  widget stays, with \<^verbatim>\<open>first\<close> on a remaining name), the record loses \<^verbatim>\<open>TH_IMMORTAL\<close>, gains
  \<^verbatim>\<open>DISABLED\<close> and has its reference count decremented once (the record is removed when
  the count reaches zero), the other records keep flags, count and widget, and the
  registry stays well-formed.
\<close>

theorem unbindwidget_spec:
  assumes "thingytab r t = Some th"
  shows "(DISABLED \<in> flags th \<longrightarrow> unbindwidget t ov r = Some (0, r)) \<and>
         (DISABLED \<notin> flags th \<and> TH_IMMORTAL \<in> flags th \<and> ov = 0 \<longrightarrow>
            unbindwidget t ov r = Some (-1, r)) \<and>
         (DISABLED \<notin> flags th \<and> (TH_IMMORTAL \<notin> flags th \<or> ov \<noteq> 0) \<and> wf_registry r \<longrightarrow>
            (\<exists>r' w wd. unbindwidget t ov r = Some (0, r') \<and>
               widget th = Some w \<and> widgets r w = Some wd \<and>
               (\<forall>w'. bound_names (thingytab r') w' = bound_names (thingytab r) w' - {t}) \<and>
               (if bound_names (thingytab r) w = {t}
                then widgets r' w = None \<and> strings r' = strings r |` (- owned_strings wd)
                else (\<exists>p. widgets r' w = Some (wd\<lparr>first := Some p\<rparr>) \<and>
                          p \<in> bound_names (thingytab r') w) \<and> strings r' = strings r) \<and>
               (\<forall>w'. w' \<noteq> w \<longrightarrow> widgets r' w' = widgets r w') \<and>
               thingytab r' t =
                 (if rc th = 1 then None
                  else Some (th\<lparr>flags := insert DISABLED (flags th - {TH_IMMORTAL}),
                               rc := rc th - 1\<rparr>)) \<and>
               (\<forall>x. x \<noteq> t \<longrightarrow>
                  rel_option (\<lambda>a b. flags a = flags b \<and> rc a = rc b \<and> widget a = widget b)
                    (thingytab r x) (thingytab r' x)) \<and>
               wf_registry r'))"
proof (intro conjI impI)
  assume "DISABLED \<in> flags th"
  then show "unbindwidget t ov r = Some (0, r)" by (rule unbindwidget_disabled [OF assms])
next
  assume "DISABLED \<notin> flags th \<and> TH_IMMORTAL \<in> flags th \<and> ov = 0"
  then show "unbindwidget t ov r = Some (-1, r)" using unbindwidget_protected [OF assms] by simp
next
  assume a: "DISABLED \<notin> flags th \<and> (TH_IMMORTAL \<notin> flags th \<or> ov \<noteq> 0) \<and> wf_registry r"
  then have en: "DISABLED \<notin> flags th" and ov: "ov \<noteq> 0 \<or> TH_IMMORTAL \<notin> flags th"
    and wf: "wf_registry r" by blast+
  obtain r' w wd where u: "unbindwidget t ov r = Some (0, r')" "widget th = Some w"
    "widgets r w = Some wd" "unbind_effect r t th w wd r'" "wf_registry r'"
    "samew th = Some t \<longleftrightarrow> bound_names (thingytab r) w = {t}"
    by (rule unbindwidget_enabled [OF wf assms en ov])
  have b: "\<forall>w'. bound_names (thingytab r') w' = bound_names (thingytab r) w' - {t}"
    using unbind_effect_bound [OF u(4)] by blast
  have fr: "if bound_names (thingytab r) w = {t}
      then widgets r' w = None \<and> strings r' = strings r |` (- owned_strings wd)
      else (\<exists>p. widgets r' w = Some (wd\<lparr>first := Some p\<rparr>) \<and>
                p \<in> bound_names (thingytab r') w) \<and> strings r' = strings r"
  proof (cases "samew th = Some t")
    case True
    then have "widgets r' w = None \<and> strings r' = strings r |` (- owned_strings wd)"
      using u(4) unfolding unbind_effect_def by simp
    then show ?thesis using True u(6) by simp
  next
    case False
    then obtain p where p: "widgets r' w = Some (wd\<lparr>first := Some p\<rparr>)" "strings r' = strings r"
      using u(4) unfolding unbind_effect_def by auto
    have "ring (thingytab r') w (first (wd\<lparr>first := Some p\<rparr>))"
      using u(5) p(1) unfolding wf_registry_def by blast
    then obtain ys where "set (p # ys) = bound_names (thingytab r') w" by (auto simp: ring_def)
    then have "p \<in> bound_names (thingytab r') w" by auto
    then show ?thesis using p False u(6) by auto
  qed
  have o: "\<forall>w'. w' \<noteq> w \<longrightarrow> widgets r' w' = widgets r w'"
    using unbind_effect_widgets [OF u(4)] by blast
  have s: "thingytab r' t =
      (if rc th = 1 then None
       else Some (th\<lparr>flags := insert DISABLED (flags th - {TH_IMMORTAL}), rc := rc th - 1\<rparr>))"
    using unbind_effect_self [OF u(4)] by (simp add: disabled_thingy_def)
  have x: "\<forall>x. x \<noteq> t \<longrightarrow>
      rel_option (\<lambda>a b. flags a = flags b \<and> rc a = rc b \<and> widget a = widget b)
        (thingytab r x) (thingytab r' x)"
    using unbind_effect_other [OF u(4)] by blast
  show "\<exists>r' w wd. unbindwidget t ov r = Some (0, r') \<and>
               widget th = Some w \<and> widgets r w = Some wd \<and>
               (\<forall>w'. bound_names (thingytab r') w' = bound_names (thingytab r) w' - {t}) \<and>
               (if bound_names (thingytab r) w = {t}
                then widgets r' w = None \<and> strings r' = strings r |` (- owned_strings wd)
                else (\<exists>p. widgets r' w = Some (wd\<lparr>first := Some p\<rparr>) \<and>
                          p \<in> bound_names (thingytab r') w) \<and> strings r' = strings r) \<and>
               (\<forall>w'. w' \<noteq> w \<longrightarrow> widgets r' w' = widgets r w') \<and>
               thingytab r' t =
                 (if rc th = 1 then None
                  else Some (th\<lparr>flags := insert DISABLED (flags th - {TH_IMMORTAL}),
                               rc := rc th - 1\<rparr>)) \<and>
               (\<forall>x. x \<noteq> t \<longrightarrow>
                  rel_option (\<lambda>a b. flags a = flags b \<and> rc a = rc b \<and> widget a = widget b)
                    (thingytab r x) (thingytab r' x)) \<and>
               wf_registry r'"
    using u(1,2,3,5) b fr o s x by (intro exI [of _ r'] exI [of _ w] exI [of _ wd] conjI)
qed


theorem unbindwidget_spec_witness:
  "thingytab native_registry ''foo'' =
     Some \<lparr>flags = {}, rc = 1, widget = Some 0, samew = Some ''.foo''\<rparr> \<and>
   wf_registry native_registry \<and>
   (\<exists>r' p. unbindwidget ''foo'' 0 native_registry = Some (0, r') \<and>
      thingytab r' ''foo'' = None \<and>
      bound_names (thingytab r') 0 = bound_names (thingytab native_registry) 0 - {''foo''} \<and>
      widgets r' 0 = Some \<lparr>wflags = {WIDGET_INT}, first = Some p, u = U_fn 0\<rparr> \<and>
      wf_registry r') \<and>
   unbindwidget ''.foo'' 0 native_registry = Some (-1, native_registry) \<and>
   unbindwidget ''x'' 1 referenced_registry = Some (0, referenced_registry)"
proof -
  let ?th = "\<lparr>flags = {}, rc = 1, widget = Some 0, samew = Some ''.foo''\<rparr>"
  let ?dth = "\<lparr>flags = {TH_IMMORTAL}, rc = 1, widget = Some 0, samew = Some ''foo''\<rparr>"
  let ?xth = "\<lparr>flags = {DISABLED}, rc = 1, widget = None, samew = None\<rparr>"
  have a: "thingytab native_registry ''foo'' = Some ?th" by (simp add: native_registry_def)
  have b: "thingytab native_registry ''.foo'' = Some ?dth" by (simp add: native_registry_def)
  have c: "thingytab referenced_registry ''x'' = Some ?xth" by (simp add: referenced_registry_def)
  have w: "widgets native_registry 0 = Some \<lparr>wflags = {WIDGET_INT}, first = Some ''.foo'', u = U_fn 0\<rparr>"
    by (simp add: native_registry_def)
  have nb: "bound_names (thingytab native_registry) 0 \<noteq> {''foo''}"
  proof
    assume "bound_names (thingytab native_registry) 0 = {''foo''}"
    moreover have "''.foo'' \<in> bound_names (thingytab native_registry) 0"
      using b by (simp add: bound_names_def)
    ultimately show False by simp
  qed
  have 1: "\<exists>r' p. unbindwidget ''foo'' 0 native_registry = Some (0, r') \<and>
      thingytab r' ''foo'' = None \<and>
      bound_names (thingytab r') 0 = bound_names (thingytab native_registry) 0 - {''foo''} \<and>
      widgets r' 0 = Some \<lparr>wflags = {WIDGET_INT}, first = Some p, u = U_fn 0\<rparr> \<and>
      wf_registry r'"
    using unbindwidget_spec [OF a, of 0] wf_native_registry w nb by auto
  have 2: "unbindwidget ''.foo'' 0 native_registry = Some (-1, native_registry)"
    using unbindwidget_spec [OF b, of 0] by simp
  have 3: "unbindwidget ''x'' 1 referenced_registry = Some (0, referenced_registry)"
    using unbindwidget_spec [OF c, of 1] by simp
  show ?thesis using a wf_native_registry 1 2 3 by (intro conjI)
qed

end
